theory Spec2Isabelle
  imports Main "HOL-Library.Char_ord" "HOL-Library.List_Lexorder"
begin


section \<open>C library character classes and number conversions\<close>

text \<open>
  A \<open>std::string\<close> is a \<^typ>\<open>string\<close>: a list of bytes.  The character classes are
  those of the "C" locale, on the value of the byte as \<open>unsigned char\<close>.
\<close>

definition isspace :: "char \<Rightarrow> bool" where
  "isspace c = (let n = (of_char c :: nat) in n = 32 \<or> (9 \<le> n \<and> n \<le> 13))"

definition isdigit :: "char \<Rightarrow> bool" where
  "isdigit c = (let n = (of_char c :: nat) in 48 \<le> n \<and> n \<le> 57)"

definition tolower :: "char \<Rightarrow> char" where
  "tolower c = (let n = (of_char c :: nat) in if 65 \<le> n \<and> n \<le> 90 then char_of (n + 32) else c)"

definition toupper :: "char \<Rightarrow> char" where
  "toupper c = (let n = (of_char c :: nat) in if 97 \<le> n \<and> n \<le> 122 then char_of (n - 32) else c)"

text \<open>The value of a decimal digit character, \<open>c - '0'\<close>.\<close>

definition digit_val :: "char \<Rightarrow> nat" where
  "digit_val c = of_char c - 48"

text \<open>
  \<open>operator<<\<close> on an unsigned and on a signed integer: the decimal digits, with a
  leading minus sign for a negative value.
\<close>

fun dec_nat :: "nat \<Rightarrow> string" where
  "dec_nat n =
     (if n < 10 then [''0123456789'' ! n]
      else dec_nat (n div 10) @ [''0123456789'' ! (n mod 10)])"

declare dec_nat.simps [simp del]

definition dec_int :: "int \<Rightarrow> string" where
  "dec_int i = (if i < 0 then CHR ''-'' # dec_nat (nat (- i)) else dec_nat (nat i))"

text \<open>
  The operator \<open>%\<close> of C++ on \<open>int\<close> truncates towards zero: the remainder has the
  sign of the dividend.  The arithmetic of \<open>int\<close> is modelled on the unbounded integers,
  which is what the code computes as long as no signed overflow (undefined behaviour in
  C++) occurs.
\<close>

definition c_rem :: "int \<Rightarrow> int \<Rightarrow> int" where
  "c_rem a b = sgn a * (\<bar>a\<bar> mod \<bar>b\<bar>)"

text \<open>
  \<open>size_t\<close> is the 64-bit unsigned type of the LP64 targets the server is built for:
  sizes are natural numbers, and an addition of sizes wraps around at \<open>2^64\<close>.
\<close>

definition SIZE_MOD :: nat where
  "SIZE_MOD = 2 ^ 64"

definition size_add :: "nat \<Rightarrow> nat \<Rightarrow> nat" where
  "size_add a b = (a + b) mod SIZE_MOD"

text \<open>
  \<open>std::strtoull(s, nullptr, 10)\<close> as the C standard defines it: leading white space is
  skipped, one sign is optional, the longest run of decimal digits is converted; no
  digit at all gives 0, a value beyond \<open>ULLONG_MAX\<close> gives \<open>ULLONG_MAX\<close>, and a minus
  sign negates the value in the unsigned type.
\<close>

definition digits_value :: "string \<Rightarrow> nat" where
  "digits_value ds = foldl (\<lambda>acc c. 10 * acc + digit_val c) 0 ds"

definition strtoull :: "string \<Rightarrow> nat" where
  "strtoull s =
     (let s1 = dropWhile isspace s;
          neg = (s1 \<noteq> [] \<and> hd s1 = CHR ''-'');
          s2 = (if s1 \<noteq> [] \<and> (hd s1 = CHR ''-'' \<or> hd s1 = CHR ''+'') then tl s1 else s1);
          ds = takeWhile isdigit s2;
          v = digits_value ds
      in if ds = [] then 0
         else if SIZE_MOD \<le> v then SIZE_MOD - 1
         else if neg then (SIZE_MOD - v) mod SIZE_MOD
         else v)"

section \<open>Operations of \<open>std::string\<close> and \<open>std::map\<close>\<close>

definition CRLF :: string where
  "CRLF = [CHR 0x0D, CHR 0x0A]"

text \<open>
  \<open>s.substr(pos, n)\<close> and \<open>s.substr(pos)\<close>.  The library throws \<open>out_of_range\<close> when
  \<open>pos\<close> exceeds the size; every call of the server has \<open>pos\<close> at most the size (each
  position comes from a successful \<open>find\<close> in the same string or is below the size by
  the loop condition), so that case is not a branch of the model.
\<close>

definition substr :: "string \<Rightarrow> nat \<Rightarrow> nat \<Rightarrow> string" where
  "substr s pos n = take n (drop pos s)"

definition starts_with :: "string \<Rightarrow> string \<Rightarrow> bool" where
  "starts_with needle s = (take (length needle) s = needle)"

text \<open>
  \<open>s.find(needle, pos)\<close>: the least index at or after \<open>pos\<close> where \<open>needle\<close> occurs;
  \<open>None\<close> is \<open>npos\<close>.
\<close>

fun find_str :: "string \<Rightarrow> string \<Rightarrow> nat option" where
  "find_str needle [] = (if needle = [] then Some 0 else None)"
| "find_str needle (x # xs) =
     (if starts_with needle (x # xs) then Some 0
      else map_option Suc (find_str needle xs))"

definition str_find :: "string \<Rightarrow> string \<Rightarrow> nat \<Rightarrow> nat option" where
  "str_find s needle pos =
     (if length s < pos then None
      else map_option (\<lambda>i. pos + i) (find_str needle (drop pos s)))"

text \<open>
  A \<open>std::map<std::string, V>\<close> is an association list kept in the strictly increasing
  order of its keys (the order of \<open>std::less\<close>, bytewise
  lexicographic), which is the order in which the code iterates over it.
  \<open>map_put\<close> is \<open>m[k] = v\<close>; \<open>map_emplace\<close> is \<open>m.emplace(k, v)\<close>, which keeps
  an entry that is already there.
\<close>

type_synonym 'v strmap = "(string \<times> 'v) list"

fun map_put :: "'v strmap \<Rightarrow> string \<Rightarrow> 'v \<Rightarrow> 'v strmap" where
  "map_put [] k v = [(k, v)]"
| "map_put ((k', v') # m) k v =
     (if k = k' then (k, v) # m
      else if k < k' then (k, v) # (k', v') # m
      else (k', v') # map_put m k v)"

fun map_emplace :: "'v strmap \<Rightarrow> string \<Rightarrow> 'v \<Rightarrow> 'v strmap" where
  "map_emplace [] k v = [(k, v)]"
| "map_emplace ((k', v') # m) k v =
     (if k = k' then (k', v') # m
      else if k < k' then (k, v) # (k', v') # m
      else (k', v') # map_emplace m k v)"

definition map_ok :: "'v strmap \<Rightarrow> bool" where
  "map_ok m = (sorted (map fst m) \<and> distinct (map fst m))"

section \<open>The resolver (src/core/Models.hpp, src/core/Resolver.hpp)\<close>

record Node =
  title :: string
  arcana :: string
  seed :: int
  timestamp :: string

definition pythag_sum :: "string \<Rightarrow> int" where
  "pythag_sum s =
     foldl (\<lambda>acc c.
        let upper = toupper c; n = (of_char upper :: nat)
        in if 65 \<le> n \<and> n \<le> 90 then acc + (int n - 65 + 1) else acc) 0 s"

definition sum_digits :: "string \<Rightarrow> int" where
  "sum_digits s = foldl (\<lambda>acc c. if isdigit c then acc + int (digit_val c) else acc) 0 s"

definition day_mod_36 :: "string \<Rightarrow> int" where
  "day_mod_36 iso_date = 0"

definition resolve :: "Node \<Rightarrow> int" where
  "resolve n =
     (let A = pythag_sum (title n);
          B = sum_digits (arcana n);
          C = day_mod_36 (timestamp n);
          score = 3 * A + 2 * B + 2 * (C * 2) + c_rem (seed n) 72
      in c_rem score 72 + 1)"

section \<open>The HTTP server (include/httplib.h)\<close>

subsection \<open>Requests, responses and the server's state\<close>

record Request =
  req_method :: string
  req_path :: string
  req_body :: string
  req_headers :: "string strmap"

record Response =
  res_status :: int
  res_body :: string
  res_headers :: "string strmap"

definition empty_request :: Request where
  "empty_request = \<lparr>req_method = [], req_path = [], req_body = [], req_headers = []\<rparr>"

text \<open>A default-constructed \<open>Response\<close>: status 200, no body, no header.\<close>

definition new_response :: Response where
  "new_response = \<lparr>res_status = 200, res_body = [], res_headers = []\<rparr>"

definition set_content :: "Response \<Rightarrow> string \<Rightarrow> string \<Rightarrow> Response" where
  "set_content res v content_type =
     res\<lparr>res_body := v, res_headers := map_put (res_headers res) ''Content-Type'' content_type\<rparr>"

definition set_header :: "Response \<Rightarrow> string \<Rightarrow> string \<Rightarrow> Response" where
  "set_header res k v = res\<lparr>res_headers := map_put (res_headers res) k v\<rparr>"

text \<open>
  A handler is a callable that mutates the response it is given; \<open>None\<close> is a handler
  that throws, which \<open>dispatch\<close> does not catch.
\<close>

type_synonym Handler = "Request \<Rightarrow> Response \<Rightarrow> Response option"

record Server =
  get_handlers :: "string \<rightharpoonup> Handler"
  post_handlers :: "string \<rightharpoonup> Handler"
  mount_point :: string
  mount_dir :: string

text \<open>The member initialisers of the class: no route, mount point \<open>/\<close>, directory \<open>.\<close>.\<close>

definition new_server :: Server where
  "new_server = \<lparr>get_handlers = Map.empty, post_handlers = Map.empty,
                  mount_point = ''/'', mount_dir = ''.''\<rparr>"

definition Get :: "Server \<Rightarrow> string \<Rightarrow> Handler \<Rightarrow> Server" where
  "Get s pattern handler = s\<lparr>get_handlers := (get_handlers s)(pattern \<mapsto> handler)\<rparr>"

definition Post :: "Server \<Rightarrow> string \<Rightarrow> Handler \<Rightarrow> Server" where
  "Post s pattern handler = s\<lparr>post_handlers := (post_handlers s)(pattern \<mapsto> handler)\<rparr>"

text \<open>\<open>set_mount_point\<close> returns its boolean result together with the updated server.\<close>

definition set_mount_point :: "Server \<Rightarrow> string \<Rightarrow> string \<Rightarrow> bool \<times> Server" where
  "set_mount_point s mp dir = (True, s\<lparr>mount_point := mp, mount_dir := dir\<rparr>)"

subsection \<open>String helpers\<close>

definition trim :: "string \<Rightarrow> string" where
  "trim v = rev (dropWhile isspace (rev (dropWhile isspace v)))"

definition strip_query :: "string \<Rightarrow> string" where
  "strip_query p = (case str_find p ''?'' 0 of None \<Rightarrow> p | Some q \<Rightarrow> substr p 0 q)"

definition case_insensitive_equal :: "string \<Rightarrow> string \<Rightarrow> bool" where
  "case_insensitive_equal a b = (length a = length b \<and> map tolower a = map tolower b)"

text \<open>
  \<open>ends_with\<close> calls the four-iterator \<open>std::equal\<close> on the two reversed strings, which
  is false for ranges of different lengths.
\<close>

definition ends_with :: "string \<Rightarrow> string \<Rightarrow> bool" where
  "ends_with v suffix =
     (if length v < length suffix then False
      else length (rev suffix) = length (rev v) \<and> map tolower (rev suffix) = map tolower (rev v))"

definition detect_mime :: "string \<Rightarrow> string" where
  "detect_mime p =
     (if ends_with p ''.html'' then ''text/html''
      else if ends_with p ''.css'' then ''text/css''
      else if ends_with p ''.js'' then ''application/javascript''
      else if ends_with p ''.json'' then ''application/json''
      else if ends_with p ''.txt'' then ''text/plain''
      else ''application/octet-stream'')"

definition status_message :: "int \<Rightarrow> string" where
  "status_message st =
     (if st = 200 then ''OK''
      else if st = 201 then ''Created''
      else if st = 204 then ''No Content''
      else if st = 400 then ''Bad Request''
      else if st = 403 then ''Forbidden''
      else if st = 404 then ''Not Found''
      else if st = 500 then ''Internal Server Error''
      else if st = 503 then ''Service Unavailable''
      else ''OK'')"

subsection \<open>Framing and parsing a request\<close>

record ParsedRequest =
  request :: Request
  header_end :: nat
  content_length :: nat

text \<open>
  \<open>extract_content_length\<close>: the loop over the lines of the header block, from the
  position \<open>pos\<close> on.
\<close>

function extract_content_length_from :: "string \<Rightarrow> nat \<Rightarrow> nat" where
  "extract_content_length_from hdrs pos =
     (if pos < length hdrs then
        (let e = (case str_find hdrs CRLF pos of None \<Rightarrow> length hdrs | Some i \<Rightarrow> i);
             line = substr hdrs pos (e - pos)
         in case str_find line '':'' 0 of
              None \<Rightarrow> extract_content_length_from hdrs (e + 2)
            | Some colon \<Rightarrow>
                if \<not> case_insensitive_equal (trim (substr line 0 colon)) ''Content-Length''
                then extract_content_length_from hdrs (e + 2)
                else strtoull (trim (drop (colon + 1) line)))
      else 0)"
  by pat_completeness auto
termination
  by (relation "measure (\<lambda>(hdrs, pos). length hdrs - pos)")
     (auto simp: str_find_def split: option.splits if_splits)

declare extract_content_length_from.simps [simp del]

definition extract_content_length :: "string \<Rightarrow> nat" where
  "extract_content_length hdrs = extract_content_length_from hdrs 0"

text \<open>
  \<open>stream >> word\<close> on a \<open>std::istringstream\<close>: white space is skipped, then the
  characters up to the next white space are the word; the second component is the
  rest of the stream.  An extraction that finds no character leaves the empty string.
\<close>

definition next_token :: "string \<Rightarrow> string \<times> string" where
  "next_token s =
     (let s' = dropWhile isspace s
      in (takeWhile (\<lambda>c. \<not> isspace c) s', dropWhile (\<lambda>c. \<not> isspace c) s'))"

text \<open>The loop of \<open>parse_request\<close> over the header lines, from the position \<open>pos\<close> on.\<close>

function parse_headers :: "string \<Rightarrow> nat \<Rightarrow> nat \<Rightarrow> string strmap \<Rightarrow> string strmap" where
  "parse_headers raw pos hend hs =
     (if pos < hend then
        (case str_find raw CRLF pos of
           None \<Rightarrow> hs
         | Some nxt \<Rightarrow>
             if hend < nxt then hs
             else (let header_line = substr raw pos (nxt - pos)
                   in case str_find header_line '':'' 0 of
                        None \<Rightarrow> parse_headers raw (nxt + 2) hend hs
                      | Some colon \<Rightarrow>
                          parse_headers raw (nxt + 2) hend
                            (map_put hs (trim (substr header_line 0 colon))
                                        (trim (drop (colon + 1) header_line)))))
      else hs)"
  by pat_completeness auto
termination
  by (relation "measure (\<lambda>(raw, pos, hend, hs). hend - pos)")
     (auto simp: str_find_def split: option.splits if_splits)

declare parse_headers.simps [simp del]

definition parse_request :: "string \<Rightarrow> ParsedRequest \<Rightarrow> ParsedRequest option" where
  "parse_request raw out =
     (case str_find raw CRLF 0 of
        None \<Rightarrow> None
      | Some line_end \<Rightarrow>
          (let request_line = substr raw 0 line_end;
               (m, rest) = next_token request_line;
               (p, rest') = next_token rest
           in if m = [] \<or> p = [] then None
              else Some (out\<lparr>request :=
                     \<lparr>req_method = m, req_path = p,
                      req_body = substr raw (header_end out + 4) (content_length out),
                      req_headers = parse_headers raw (line_end + 2) (header_end out)
                                      (req_headers (request out))\<rparr>\<rparr>)))"

text \<open>
  What one call of \<open>recv\<close> on the connection returns: a chunk of bytes (at most the
  4096 of the read buffer; the empty chunk is the return value 0), the error \<open>EINTR\<close>,
  or another error.  A connection is the list of these results; when the list is
  exhausted the peer has closed the connection and \<open>recv\<close> returns 0.
\<close>

datatype recv_result = Data string | Eintr | Fail

definition CHUNK :: nat where
  "CHUNK = 4096"

text \<open>
  The \<open>while (true)\<close> loop of \<open>read_request\<close> on the buffer, the header end found so
  far (\<open>None\<close> is \<open>npos\<close>) and the content length.  \<open>None\<close> is the \<open>return false\<close>
  inside the loop; \<open>Some\<close> is the state at a \<open>break\<close>.
\<close>

fun read_loop :: "recv_result list \<Rightarrow> string \<Rightarrow> nat option \<Rightarrow> nat \<Rightarrow> (string \<times> nat option \<times> nat) option" where
  "read_loop [] buffer hend clen = Some (buffer, hend, clen)"
| "read_loop (Eintr # rs) buffer hend clen = read_loop rs buffer hend clen"
| "read_loop (Fail # rs) buffer hend clen = None"
| "read_loop (Data chunk # rs) buffer hend clen =
     (if chunk = [] then Some (buffer, hend, clen)
      else
        (let buffer' = buffer @ chunk;
             (hend', clen') =
               (case hend of
                  Some h \<Rightarrow> (Some h, clen)
                | None \<Rightarrow>
                    (case str_find buffer' (CRLF @ CRLF) 0 of
                       None \<Rightarrow> (None, clen)
                     | Some h \<Rightarrow> (Some h, extract_content_length (substr buffer' 0 (h + 2)))))
         in if (case hend' of None \<Rightarrow> False
                | Some h \<Rightarrow> size_add (size_add h 4) clen' \<le> length buffer')
            then Some (buffer', hend', clen')
            else if length chunk < CHUNK then Some (buffer', hend', clen')
            else read_loop rs buffer' hend' clen'))"

definition read_request :: "recv_result list \<Rightarrow> ParsedRequest option" where
  "read_request rs =
     (case read_loop rs [] None 0 of
        None \<Rightarrow> None
      | Some (buffer, hend, clen) \<Rightarrow>
          if buffer = [] then None
          else
            (case (case hend of
                     Some h \<Rightarrow> Some (h, clen)
                   | None \<Rightarrow>
                       (case str_find buffer (CRLF @ CRLF) 0 of
                          None \<Rightarrow> None
                        | Some h \<Rightarrow> Some (h, extract_content_length (substr buffer 0 (h + 2))))) of
               None \<Rightarrow> None
             | Some (h, clen') \<Rightarrow>
                 if length buffer < size_add (size_add h 4) clen' then None
                 else parse_request buffer
                        \<lparr>request = empty_request, header_end = h, content_length = clen'\<rparr>))"

subsection \<open>Dispatch and the static files\<close>

text \<open>
  The file system as \<open>std::ifstream\<close> sees it: the contents of the file at a path, or
  \<open>None\<close> when the file cannot be opened.
\<close>

type_synonym FileSystem = "string \<Rightarrow> string option"

definition ensure_default_headers :: "Response \<Rightarrow> Response" where
  "ensure_default_headers res =
     (if map_of (res_headers res) ''Content-Type'' = None
      then res\<lparr>res_headers := map_put (res_headers res) ''Content-Type'' ''text/plain''\<rparr>
      else res)"

text \<open>
  \<open>serve_file\<close> returns its boolean result, the response, and the path it tried to open.
\<close>

definition serve_file :: "Server \<Rightarrow> FileSystem \<Rightarrow> string \<Rightarrow> Response \<Rightarrow> bool \<times> Response \<times> string list" where
  "serve_file s fs relative_path res =
     (let full = (if mount_dir s \<noteq> [] \<and> last (mount_dir s) \<noteq> CHR ''/''
                  then mount_dir s @ ''/'' else mount_dir s) @ relative_path
      in case fs full of
           None \<Rightarrow> (False, res, [full])
         | Some contents \<Rightarrow>
             (True,
              set_header (res\<lparr>res_body := contents, res_status := 200\<rparr>)
                ''Content-Type'' (detect_mime relative_path),
              [full]))"

text \<open>
  The result of \<open>dispatch\<close>: its boolean result, the response as it leaves, the paths of
  the files it tried to open, in order, and the \<open>return\<close> statement it left by.
\<close>

datatype Exit =
    RouteHandled | MountPointEmpty | IndexServed | IndexMissing
  | TraversalForbidden | FileServed | NotFound

record Dispatched =
  handled :: bool
  response :: Response
  opened :: "string list"
  left_by :: Exit

definition not_found :: "Response \<Rightarrow> Response" where
  "not_found res = res\<lparr>res_status := 404, res_body := ''not_found''\<rparr>"

definition dispatch :: "Server \<Rightarrow> FileSystem \<Rightarrow> Request \<Rightarrow> Response \<Rightarrow> Dispatched option" where
  "dispatch s fs req res =
     (let p = strip_query (req_path req);
          handlers = (if req_method req = ''POST'' then post_handlers s else get_handlers s)
      in case handlers p of
           Some h \<Rightarrow>
             (case h req res of
                None \<Rightarrow> None
              | Some res' \<Rightarrow>
                  Some \<lparr>handled = True, response = ensure_default_headers res',
                        opened = [], left_by = RouteHandled\<rparr>)
         | None \<Rightarrow>
             Some
              (if mount_point s = [] then
                 \<lparr>handled = False, response = not_found res, opened = [],
                  left_by = MountPointEmpty\<rparr>
               else if p = mount_point s \<or> (mount_point s = ''/'' \<and> p = mount_point s) then
                 (case serve_file s fs ''index.html'' res of
                    (True, res', fl) \<Rightarrow>
                      \<lparr>handled = True, response = ensure_default_headers res',
                       opened = fl, left_by = IndexServed\<rparr>
                  | (False, res', fl) \<Rightarrow>
                      \<lparr>handled = False, response = not_found res', opened = fl,
                       left_by = IndexMissing\<rparr>)
               else if mount_point s \<noteq> [] \<and> starts_with (mount_point s) p then
                 (let relative0 = drop (length (mount_point s)) p;
                      relative1 = (if relative0 \<noteq> [] \<and> hd relative0 = CHR ''/''
                                   then tl relative0 else relative0);
                      relative = (if relative1 = [] then ''index.html'' else relative1)
                  in if str_find relative ''..'' 0 \<noteq> None then
                       \<lparr>handled = False,
                        response = res\<lparr>res_status := 403, res_body := ''forbidden''\<rparr>,
                        opened = [], left_by = TraversalForbidden\<rparr>
                     else
                       (case serve_file s fs relative res of
                          (True, res', fl) \<Rightarrow>
                            \<lparr>handled = True, response = ensure_default_headers res',
                             opened = fl, left_by = FileServed\<rparr>
                        | (False, res', fl) \<Rightarrow>
                            \<lparr>handled = False, response = not_found res', opened = fl,
                             left_by = NotFound\<rparr>))
               else
                 \<lparr>handled = False, response = not_found res, opened = [],
                  left_by = NotFound\<rparr>))"

subsection \<open>Writing the response\<close>

text \<open>The bytes that \<open>send_response\<close> builds in its \<open>std::ostringstream\<close>.\<close>

definition header_line :: "string \<times> string \<Rightarrow> string" where
  "header_line entry = fst entry @ '': '' @ snd entry @ CRLF"

definition response_bytes :: "Response \<Rightarrow> string" where
  "response_bytes res =
     (let builder = ''HTTP/1.1 '' @ dec_int (res_status res) @ '' ''
                      @ status_message (res_status res) @ CRLF;
          builder = foldl (\<lambda>b entry. b @ header_line entry) builder (res_headers res);
          builder = builder @ ''Content-Length: '' @ dec_nat (length (res_body res)) @ CRLF;
          builder = builder @ ''Connection: close'' @ CRLF @ CRLF;
          builder = builder @ res_body res
      in builder)"

text \<open>
  The loop of \<open>send_response\<close> over the results of the calls of \<open>send\<close> (the number
  of bytes written, or a value at most 0): the number of bytes sent when it stops.  When
  the list of results is exhausted the socket accepts nothing more.
\<close>

fun send_loop :: "nat \<Rightarrow> nat \<Rightarrow> int list \<Rightarrow> nat" where
  "send_loop len sent ws =
     (if sent < len then
        (case ws of
           [] \<Rightarrow> sent
         | written # ws' \<Rightarrow>
             if written \<le> 0 then sent else send_loop len (sent + nat written) ws')
      else sent)"

declare send_loop.simps [simp del]

text \<open>The bytes that reach the client.\<close>

definition send_response :: "int list \<Rightarrow> Response \<Rightarrow> string" where
  "send_response ws res =
     (let out = response_bytes res in take (send_loop (length out) 0 ws) out)"

definition send_error :: "int list \<Rightarrow> int \<Rightarrow> string \<Rightarrow> string" where
  "send_error ws st message =
     send_response ws (set_content (new_response\<lparr>res_status := st\<rparr>) message ''text/plain'')"

text \<open>
  \<open>handle_client\<close>: the bytes sent back on one connection; \<open>None\<close> when a handler throws.
\<close>

definition handle_client :: "Server \<Rightarrow> FileSystem \<Rightarrow> recv_result list \<Rightarrow> int list \<Rightarrow> string option" where
  "handle_client s fs rs ws =
     (case read_request rs of
        None \<Rightarrow> Some (send_error ws 400 ''Bad Request'')
      | Some parsed \<Rightarrow>
          (case dispatch s fs (request parsed) new_response of
             None \<Rightarrow> None
           | Some d \<Rightarrow>
               if \<not> handled d then
                 Some (send_error ws (res_status (response d))
                         (if res_body (response d) = [] then ''Not Found''
                          else res_body (response d)))
               else Some (send_response ws (response d))))"

section \<open>The JSON value tree (include/json.hpp)\<close>

text \<open>
  \<open>number_t\<close> is \<open>double\<close>.  The type of doubles is a parameter \<open>'d\<close> of the model, and
  what the code computes on a double through the C++ library is a parameter too:
  \<^item> \<open>stod\<close> is \<open>std::stod\<close> on the text of a number; \<open>None\<close> when it throws;
  \<^item> \<open>int_of_double\<close> is \<open>static_cast<int>\<close>;
  \<^item> \<open>double_of_int\<close> is the conversion of the constructor \<open>json(int)\<close>;
  \<^item> \<open>string_of_double\<close> is the number branch of \<open>get<std::string>\<close> (\<open>std::floor\<close>
    and \<open>std::to_string\<close>);
  \<^item> \<open>print_double\<close> is the number branch of \<open>dump_impl\<close> (\<open>std::isfinite\<close> and the
    stream output with precision 15).
\<close>

record 'd number_ops =
  stod :: "string \<Rightarrow> 'd option"
  int_of_double :: "'d \<Rightarrow> int"
  double_of_int :: "int \<Rightarrow> 'd"
  string_of_double :: "'d \<Rightarrow> string"
  print_double :: "'d \<Rightarrow> string"

datatype 'd json =
    JNull
  | JBoolean bool
  | JNumber 'd
  | JString string
  | JArray "'d json list"
  | JObject "(string \<times> 'd json) list"

definition is_object :: "'d json \<Rightarrow> bool" where
  "is_object j = (case j of JObject obj \<Rightarrow> True | _ \<Rightarrow> False)"

text \<open>
  \<open>std::stoi\<close>: white space is skipped, one sign is optional, the longest run of decimal
  digits is converted.  \<open>None\<close> is the exception: \<open>invalid_argument\<close> when there is no
  digit, \<open>out_of_range\<close> when the value is not an \<open>int\<close>.
\<close>

definition stoi :: "string \<Rightarrow> int option" where
  "stoi s =
     (let s1 = dropWhile isspace s;
          neg = (s1 \<noteq> [] \<and> hd s1 = CHR ''-'');
          s2 = (if s1 \<noteq> [] \<and> (hd s1 = CHR ''-'' \<or> hd s1 = CHR ''+'') then tl s1 else s1);
          ds = takeWhile isdigit s2;
          v = (if neg then - int (digits_value ds) else int (digits_value ds))
      in if ds = [] then None
         else if v < - (2 ^ 31) \<or> 2 ^ 31 - 1 < v then None
         else Some v)"

text \<open>\<open>get<std::string>\<close> and \<open>get<int>\<close>; the latter throws where \<open>std::stoi\<close> does.\<close>

definition get_string :: "'d number_ops \<Rightarrow> 'd json \<Rightarrow> string" where
  "get_string ops j =
     (case j of
        JString s \<Rightarrow> s
      | JNumber n \<Rightarrow> string_of_double ops n
      | JBoolean b \<Rightarrow> (if b then ''true'' else ''false'')
      | _ \<Rightarrow> [])"

definition get_int :: "'d number_ops \<Rightarrow> 'd json \<Rightarrow> int option" where
  "get_int ops j =
     (case j of
        JNumber n \<Rightarrow> Some (int_of_double ops n)
      | JString s \<Rightarrow> stoi s
      | _ \<Rightarrow> Some 0)"

text \<open>\<open>value<T>(key, default_value)\<close> for the two types the server uses.\<close>

definition value_string :: "'d number_ops \<Rightarrow> 'd json \<Rightarrow> string \<Rightarrow> string \<Rightarrow> string" where
  "value_string ops j key default_value =
     (case j of
        JObject obj \<Rightarrow>
          (case map_of obj key of None \<Rightarrow> default_value | Some v \<Rightarrow> get_string ops v)
      | _ \<Rightarrow> default_value)"

definition value_int :: "'d number_ops \<Rightarrow> 'd json \<Rightarrow> string \<Rightarrow> int \<Rightarrow> int option" where
  "value_int ops j key default_value =
     (case j of
        JObject obj \<Rightarrow>
          (case map_of obj key of None \<Rightarrow> Some default_value | Some v \<Rightarrow> get_int ops v)
      | _ \<Rightarrow> Some default_value)"

text \<open>
  The specialisation \<open>json::get<Node>\<close> of src/core/Models.hpp.  A value that is not an
  object gives the default-constructed \<open>Node\<close>: empty strings and the seed 33.
\<close>

definition get_Node :: "'d number_ops \<Rightarrow> 'd json \<Rightarrow> Node option" where
  "get_Node ops j =
     (if is_object j then
        (case value_int ops j ''seed'' 33 of
           None \<Rightarrow> None
         | Some sd \<Rightarrow>
             Some \<lparr>title = value_string ops j ''title'' [],
                   arcana = value_string ops j ''arcana'' ''0'',
                   seed = sd,
                   timestamp = value_string ops j ''timestamp'' []\<rparr>)
      else Some \<lparr>title = [], arcana = [], seed = 33, timestamp = []\<rparr>)"

text \<open>The constructor from an initializer list of pairs: \<open>obj[key] = value\<close> in turn.\<close>

definition json_object :: "(string \<times> 'd json) list \<Rightarrow> 'd json" where
  "json_object init = JObject (foldl (\<lambda>obj item. map_put obj (fst item) (snd item)) [] init)"

subsection \<open>Serialisation\<close>

definition escape_char :: "char \<Rightarrow> string" where
  "escape_char ch =
     (if ch = CHR 0x22 then [CHR 0x5C, CHR 0x22]
      else if ch = CHR 0x5C then [CHR 0x5C, CHR 0x5C]
      else if ch = CHR 0x08 then [CHR 0x5C, CHR ''b'']
      else if ch = CHR 0x0C then [CHR 0x5C, CHR ''f'']
      else if ch = CHR 0x0A then [CHR 0x5C, CHR ''n'']
      else if ch = CHR 0x0D then [CHR 0x5C, CHR ''r'']
      else if ch = CHR 0x09 then [CHR 0x5C, CHR ''t'']
      else [ch])"

definition dump_string :: "string \<Rightarrow> string" where
  "dump_string str = [CHR 0x22] @ concat (map escape_char str) @ [CHR 0x22]"

text \<open>The line break and the indentation that precede an item when \<open>indent >= 0\<close>.\<close>

definition newline_indent :: "int \<Rightarrow> nat \<Rightarrow> string" where
  "newline_indent indent depth =
     (if 0 \<le> indent then CHR 0x0A # replicate (nat indent * depth) CHR '' '' else [])"

text \<open>The items of an array or object, already serialised, with their separators.\<close>

fun join_items :: "int \<Rightarrow> nat \<Rightarrow> string list \<Rightarrow> string" where
  "join_items indent depth [] = []"
| "join_items indent depth [x] = newline_indent indent (depth + 1) @ x"
| "join_items indent depth (x # y # ys) =
     newline_indent indent (depth + 1) @ x @ '','' @ (if indent < 0 then '' '' else [])
       @ join_items indent depth (y # ys)"

fun dump_impl :: "'d number_ops \<Rightarrow> int \<Rightarrow> nat \<Rightarrow> 'd json \<Rightarrow> string" where
  "dump_impl ops indent depth JNull = ''null''"
| "dump_impl ops indent depth (JBoolean b) = (if b then ''true'' else ''false'')"
| "dump_impl ops indent depth (JNumber n) = print_double ops n"
| "dump_impl ops indent depth (JString str) = dump_string str"
| "dump_impl ops indent depth (JArray arr) =
     ''['' @ (if arr \<noteq> []
              then join_items indent depth (map (dump_impl ops indent (depth + 1)) arr)
                     @ newline_indent indent depth
              else [])
         @ '']''"
| "dump_impl ops indent depth (JObject obj) =
     ''{'' @ (if obj \<noteq> []
              then join_items indent depth
                     (map (\<lambda>entry. dump_string (fst entry) @ '':''
                                      @ (if 0 \<le> indent then '' '' else [])
                                      @ dump_impl ops indent (depth + 1) (snd entry)) obj)
                     @ newline_indent indent depth
              else [])
         @ ''}''"

text \<open>\<open>dump()\<close> with its default argument \<open>indent = -1\<close>.\<close>

definition dump :: "'d number_ops \<Rightarrow> 'd json \<Rightarrow> string" where
  "dump ops j = dump_impl ops (- 1) 0 j"

subsection \<open>The parser\<close>

text \<open>
  The parser's state is the text from \<open>index\<close> on.  A result is the value and the text
  that is left; \<open>None\<close> is a thrown exception.
\<close>

definition skip_ws :: "string \<Rightarrow> string" where
  "skip_ws s = dropWhile isspace s"

definition consume_literal :: "string \<Rightarrow> string \<Rightarrow> string option" where
  "consume_literal literal s =
     (if starts_with literal s then Some (drop (length literal) s) else None)"

definition unescape :: "char \<Rightarrow> char option" where
  "unescape esc =
     (if esc = CHR 0x22 then Some (CHR 0x22)
      else if esc = CHR 0x5C then Some (CHR 0x5C)
      else if esc = CHR ''/'' then Some (CHR ''/'')
      else if esc = CHR ''b'' then Some (CHR 0x08)
      else if esc = CHR ''f'' then Some (CHR 0x0C)
      else if esc = CHR ''n'' then Some (CHR 0x0A)
      else if esc = CHR ''r'' then Some (CHR 0x0D)
      else if esc = CHR ''t'' then Some (CHR 0x09)
      else None)"

text \<open>\<open>parse_string_body\<close>, with the \<open>result\<close> built so far.\<close>

fun parse_string_body :: "string \<Rightarrow> string \<Rightarrow> (string \<times> string) option" where
  "parse_string_body [] result = None"
| "parse_string_body (ch # s) result =
     (if ch = CHR 0x22 then Some (result, s)
      else if ch = CHR 0x5C then
        (case s of
           [] \<Rightarrow> None
         | esc # s' \<Rightarrow>
             (case unescape esc of
                None \<Rightarrow> None
              | Some c \<Rightarrow> parse_string_body s' (result @ [c])))
      else parse_string_body s (result @ [ch]))"

text \<open>
  \<open>parse_number\<close>, called on a text that is not empty: the text after the characters
  the scan went over, and the double \<open>std::stod\<close> makes of those characters.
\<close>

definition scan_number :: "string \<Rightarrow> string" where
  "scan_number s =
     (let s1 = (if s \<noteq> [] \<and> hd s = CHR ''-'' then tl s else s);
          s2 = dropWhile isdigit s1;
          s3 = (if s2 \<noteq> [] \<and> hd s2 = CHR ''.'' then dropWhile isdigit (tl s2) else s2)
      in if s3 \<noteq> [] \<and> (hd s3 = CHR ''e'' \<or> hd s3 = CHR ''E'') then
           (let s4 = tl s3;
                s5 = (if s4 \<noteq> [] \<and> (hd s4 = CHR ''+'' \<or> hd s4 = CHR ''-'') then tl s4 else s4)
            in dropWhile isdigit s5)
         else s3)"

definition parse_number :: "'d number_ops \<Rightarrow> string \<Rightarrow> ('d \<times> string) option" where
  "parse_number ops s =
     (let rest = scan_number s
      in case stod ops (take (length s - length rest) s) of
           None \<Rightarrow> None
         | Some d \<Rightarrow> Some (d, rest))"

text \<open>
  \<open>parse_value\<close>, with \<open>parse_object\<close> and \<open>parse_array\<close> in its branches; the two
  \<open>while (true)\<close> loops are \<open>parse_members\<close> and \<open>parse_elements\<close>, on the map or
  vector built so far.  The test that a value leaves no more text than it was given
  never fails (lemma \<open>parse_value_shorter\<close> below); it is there for the termination proof.
\<close>

function parse_value :: "'d number_ops \<Rightarrow> string \<Rightarrow> ('d json \<times> string) option"
  and parse_members :: "'d number_ops \<Rightarrow> string \<Rightarrow> (string \<times> 'd json) list \<Rightarrow> ('d json \<times> string) option"
  and parse_elements :: "'d number_ops \<Rightarrow> string \<Rightarrow> 'd json list \<Rightarrow> ('d json \<times> string) option"
where
  "parse_value ops inp =
     (let s = skip_ws inp
      in if s = [] then None
         else if hd s = CHR 0x22 then
           (case parse_string_body (tl s) [] of
              None \<Rightarrow> None
            | Some (str, rest) \<Rightarrow> Some (JString str, rest))
         else if hd s = CHR ''{'' then
           (let s1 = skip_ws (tl s)
            in if s1 \<noteq> [] \<and> hd s1 = CHR ''}'' then Some (JObject [], tl s1)
               else parse_members ops s1 [])
         else if hd s = CHR ''['' then
           (let s1 = skip_ws (tl s)
            in if s1 \<noteq> [] \<and> hd s1 = CHR '']'' then Some (JArray [], tl s1)
               else parse_elements ops s1 [])
         else if hd s = CHR ''t'' then
           (case consume_literal ''true'' s of
              None \<Rightarrow> None | Some rest \<Rightarrow> Some (JBoolean True, rest))
         else if hd s = CHR ''f'' then
           (case consume_literal ''false'' s of
              None \<Rightarrow> None | Some rest \<Rightarrow> Some (JBoolean False, rest))
         else if hd s = CHR ''n'' then
           (case consume_literal ''null'' s of
              None \<Rightarrow> None | Some rest \<Rightarrow> Some (JNull, rest))
         else
           (case parse_number ops s of
              None \<Rightarrow> None | Some (d, rest) \<Rightarrow> Some (JNumber d, rest)))"
| "parse_members ops inp result =
     (let s = skip_ws inp
      in if s = [] \<or> hd s \<noteq> CHR 0x22 then None
         else
           (case parse_string_body (tl s) [] of
              None \<Rightarrow> None
            | Some (key, s1) \<Rightarrow>
                (let s2 = skip_ws s1
                 in if s2 = [] \<or> hd s2 \<noteq> CHR '':'' then None
                    else
                      (case parse_value ops (tl s2) of
                         None \<Rightarrow> None
                       | Some (v, s3) \<Rightarrow>
                           if length (tl s2) < length s3 then None
                           else
                             (let result' = map_emplace result key v;
                                  s4 = skip_ws s3
                              in if s4 \<noteq> [] \<and> hd s4 = CHR ''}'' then Some (JObject result', tl s4)
                                 else if s4 = [] \<or> hd s4 \<noteq> CHR '','' then None
                                 else parse_members ops (tl s4) result')))))"
| "parse_elements ops inp result =
     (case parse_value ops inp of
        None \<Rightarrow> None
      | Some (v, s1) \<Rightarrow>
          if length inp < length s1 then None
          else
            (let result' = result @ [v];
                 s2 = skip_ws s1
             in if s2 \<noteq> [] \<and> hd s2 = CHR '']'' then Some (JArray result', tl s2)
                else if s2 = [] \<or> hd s2 \<noteq> CHR '','' then None
                else parse_elements ops (tl s2) result'))"
  by pat_completeness auto
termination
proof -
  have ws: "length (skip_ws s) \<le> length s" for s
    unfolding skip_ws_def by (rule length_dropWhile_le)
  have tlws: "length (tl (skip_ws s)) < length s" if "skip_ws s \<noteq> []" for s
    using ws [of s] that by (cases "skip_ws s") auto
  have psb: "length rest < length s"
    if "parse_string_body s acc = Some (r, rest)" for s acc r rest
    using that
  proof (induction s acc rule: parse_string_body.induct)
    case (1 result)
    then show ?case by simp
  next
    case (2 ch s result)
    show ?case
    proof (cases "ch = CHR 0x22")
      case True
      with 2(3) show ?thesis by simp
    next
      case q: False
      show ?thesis
      proof (cases "ch = CHR 0x5C")
        case True
        with q 2(3) obtain esc s' c where s: "s = esc # s'" and u: "unescape esc = Some c"
          and p: "parse_string_body s' (result @ [c]) = Some (r, rest)"
          by (auto split: list.splits option.splits)
        from 2(1) [OF q True s u p] s show ?thesis by simp
      next
        case False
        with q 2(3) have "parse_string_body s (result @ [ch]) = Some (r, rest)" by simp
        from 2(2) [OF q False this] show ?thesis by simp
      qed
    qed
  qed
  show ?thesis
    apply (relation "measure (\<lambda>x. case x of
                      Inl (ops, inp) \<Rightarrow> 2 * length inp
                    | Inr (Inl (ops, inp, result)) \<Rightarrow> 2 * length inp + 1
                    | Inr (Inr (ops, inp, result)) \<Rightarrow> 2 * length inp + 1)")
    subgoal by simp
    subgoal for ops inp x xa
      using tlws [of inp] ws [of "tl (skip_ws inp)"] by simp
    subgoal for ops inp x xa
      using tlws [of inp] ws [of "tl (skip_ws inp)"] by simp
    subgoal for ops inp result x x2 xa y xb
      using tlws [of inp] tlws [of y] psb [of "tl (skip_ws inp)" "[]" xa y] by simp
    subgoal for ops inp result x x2 xa y xb x2a xc ya xd xe
      using tlws [of inp] tlws [of y] tlws [of ya] psb [of "tl (skip_ws inp)" "[]" xa y]
      by simp
    subgoal by simp
    subgoal for ops inp result x2 x y xa xb
      using tlws [of y] by simp
    done
qed

declare parse_value.simps [simp del] parse_members.simps [simp del] parse_elements.simps [simp del]

text \<open>\<open>json::parse\<close>: one value, then nothing but white space.\<close>

definition json_parse :: "'d number_ops \<Rightarrow> string \<Rightarrow> 'd json option" where
  "json_parse ops inp =
     (case parse_value ops inp of
        None \<Rightarrow> None
      | Some (v, rest) \<Rightarrow> if skip_ws rest = [] then Some v else None)"

section \<open>The application (src/core/Registry.hpp, src/web/Server.hpp)\<close>

record 'd Registry =
  root :: "'d json"
  ok :: bool

text \<open>
  \<open>load_registry\<close>: the registry is \<open>ok\<close> when the file opens and its text parses; the
  root stays the default-constructed null value otherwise.
\<close>

definition load_registry :: "'d number_ops \<Rightarrow> FileSystem \<Rightarrow> string \<Rightarrow> 'd Registry" where
  "load_registry ops fs p =
     (case fs p of
        None \<Rightarrow> \<lparr>root = JNull, ok = False\<rparr>
      | Some contents \<Rightarrow>
          (case json_parse ops contents of
             None \<Rightarrow> \<lparr>root = JNull, ok = False\<rparr>
           | Some j \<Rightarrow> \<lparr>root = j, ok = True\<rparr>))"

text \<open>The three handlers that the constructor of the wrapper class registers.\<close>

definition health_handler :: Handler where
  "health_handler req res = Some (set_content res ''ok'' ''text/html'')"

definition registry_handler :: "'d number_ops \<Rightarrow> 'd Registry \<Rightarrow> Handler" where
  \<open>registry_handler ops reg req res =
     (if \<not> ok reg then
        Some (set_content (res\<lparr>res_status := 503\<rparr>) ''{"error":"no_registry"}''
                ''application/json'')
      else Some (set_content res (dump ops (root reg)) ''application/json''))\<close>

text \<open>
  The handler of \<open>POST /resolve\<close>.  Its \<open>catch (...)\<close> takes every exception of the
  \<open>try\<close> block: those of \<open>json::parse\<close> and those of \<open>get<Node>\<close>.
\<close>

definition resolve_handler :: "'d number_ops \<Rightarrow> Handler" where
  \<open>resolve_handler ops req res =
     (case (case json_parse ops (req_body req) of
              None \<Rightarrow> None
            | Some j \<Rightarrow> get_Node ops j) of
        Some node \<Rightarrow>
          Some (set_content res
                  (dump ops (json_object
                     [(''worker_id'', JNumber (double_of_int ops (resolve node))),
                      (''system'', JString ''raku-lite-cpp'')]))
                  ''application/json'')
      | None \<Rightarrow>
          Some (set_content (res\<lparr>res_status := 400\<rparr>) ''{"error":"bad_json"}''
                  ''application/json''))\<close>

text \<open>The \<open>httplib::Server\<close> as the constructor of the wrapper class leaves it.\<close>

definition app_server :: "'d number_ops \<Rightarrow> 'd Registry \<Rightarrow> Server" where
  "app_server ops reg =
     (let api = Get new_server ''/core/health-check.html'' health_handler;
          api = Get api ''/registry'' (registry_handler ops reg);
          api = Post api ''/resolve'' (resolve_handler ops)
      in snd (set_mount_point api ''/'' ''./public''))"

text \<open>
  One choice of the number operations, for documents whose numbers are written as
  integers: a double is the integer it holds, \<open>stod\<close> reads an optional minus sign and
  decimal digits and throws on anything else.  It serves to run the model on concrete
  requests; the theorems below hold for every choice of the operations.
\<close>

definition int_stod :: "string \<Rightarrow> int option" where
  "int_stod s =
     (let ds = (if s \<noteq> [] \<and> hd s = CHR ''-'' then tl s else s)
      in if ds = [] \<or> \<not> list_all isdigit ds then None
         else Some (if s \<noteq> [] \<and> hd s = CHR ''-'' then - int (digits_value ds)
                    else int (digits_value ds)))"

definition int_number_ops :: "int number_ops" where
  "int_number_ops =
     \<lparr>stod = int_stod, int_of_double = (\<lambda>d. d), double_of_int = (\<lambda>i. i),
      string_of_double = dec_int, print_double = dec_int\<rparr>"


section \<open>Notions of the specification\<close>

text \<open>The handler table that the method of a request selects.\<close>

definition selected_handlers :: "Server \<Rightarrow> Request \<Rightarrow> (string \<rightharpoonup> Handler)" where
  "selected_handlers s req =
     (if req_method req = ''POST'' then post_handlers s else get_handlers s)"

text \<open>
  The remainder of a path under a mount prefix: the prefix is stripped, then a single
  leading slash.
\<close>

definition mount_remainder :: "string \<Rightarrow> string \<Rightarrow> string" where
  "mount_remainder mp p =
     (let r = drop (length mp) p in if r \<noteq> [] \<and> hd r = CHR ''/'' then tl r else r)"

text \<open>The fixed table of reason phrases.\<close>

definition reason_table :: "(int \<times> string) list" where
  "reason_table =
     [(200, ''OK''), (201, ''Created''), (204, ''No Content''), (400, ''Bad Request''),
      (403, ''Forbidden''), (404, ''Not Found''), (500, ''Internal Server Error''),
      (503, ''Service Unavailable'')]"

text \<open>
  The calls that configure a server before it listens, and the server after a list of
  them.
\<close>

datatype Setup = SetupGet string Handler | SetupPost string Handler | SetupMount string string

fun apply_setup :: "Server \<Rightarrow> Setup \<Rightarrow> Server" where
  "apply_setup s (SetupGet pattern h) = Get s pattern h"
| "apply_setup s (SetupPost pattern h) = Post s pattern h"
| "apply_setup s (SetupMount mp dir) = snd (set_mount_point s mp dir)"

definition configure :: "Server \<Rightarrow> Setup list \<Rightarrow> Server" where
  "configure s calls = foldl apply_setup s calls"

fun mounts_empty_prefix :: "Setup \<Rightarrow> bool" where
  "mounts_empty_prefix (SetupMount mp dir) = (mp = [])"
| "mounts_empty_prefix _ = False"

text \<open>The chunks of data among the results of \<open>recv\<close>.\<close>

fun payload :: "recv_result list \<Rightarrow> string list" where
  "payload [] = []"
| "payload (Data chunk # rs) = chunk # payload rs"
| "payload (r # rs) = payload rs"

text \<open>Two requests on which the model is run below.\<close>

definition huge_request :: string where
  "huge_request =
     ''GET / HTTP/1.1'' @ CRLF @ ''Content-Length: 18446744073709551615'' @ CRLF @ CRLF"

definition sample_head :: string where
  "sample_head = ''POST /resolve HTTP/1.1'' @ CRLF @ ''Content-Length: 4070'' @ CRLF @ CRLF"

text \<open>A registry file and two bodies of \<open>POST /resolve\<close> on which the model is run below.\<close>

definition sample_registry :: string where
  \<open>sample_registry = ''{"b": [1, true], "a": "x"}''\<close>

definition sample_files :: FileSystem where
  "sample_files p = (if p = ''./registry/universal.json'' then Some sample_registry else None)"

definition seed_text_body :: string where
  \<open>seed_text_body = ''{"seed":"x"}''\<close>

definition sample_body :: string where
  \<open>sample_body = ''{"title":"AB","arcana":"1","seed":33}''\<close>

text \<open>
  The lines of a header block, split at each CRLF, and what makes a line a
  \<open>Content-Length\<close> line: it has a colon, and the text before its first colon, trimmed,
  is that key in any case.  The value of a line is the trimmed text after the colon.
\<close>

function header_lines_from :: "string \<Rightarrow> nat \<Rightarrow> string list" where
  "header_lines_from hdrs pos =
     (if pos < length hdrs then
        (let e = (case str_find hdrs CRLF pos of None \<Rightarrow> length hdrs | Some i \<Rightarrow> i)
         in substr hdrs pos (e - pos) # header_lines_from hdrs (e + 2))
      else [])"
  by pat_completeness auto
termination
  by (relation "measure (\<lambda>(hdrs, pos). length hdrs - pos)")
     (auto simp: str_find_def split: option.splits if_splits)

declare header_lines_from.simps [simp del]

definition is_content_length_line :: "string \<Rightarrow> bool" where
  "is_content_length_line line =
     (case str_find line '':'' 0 of
        None \<Rightarrow> False
      | Some colon \<Rightarrow> case_insensitive_equal (trim (substr line 0 colon)) ''Content-Length'')"

definition line_value :: "string \<Rightarrow> string" where
  "line_value line =
     (case str_find line '':'' 0 of
        None \<Rightarrow> []
      | Some colon \<Rightarrow> trim (drop (colon + 1) line))"


section \<open>Lemmas on strings and maps\<close>

lemma find_str_prefix: "find_str n (n @ v) = Some 0"
proof (cases "n @ v")
  case Nil
  then show ?thesis by simp
next
  case (Cons x xs)
  have "starts_with n (n @ v)" by (simp add: starts_with_def)
  with Cons show ?thesis by simp
qed

lemma find_str_contains: "find_str n (u @ n @ v) \<noteq> None"
proof (induction u)
  case Nil
  then show ?case by (simp add: find_str_prefix)
next
  case (Cons x u)
  then show ?case by auto
qed

lemma map_of_map_put_same: "map_of (map_put m k v) k = Some v"
  by (induction m k v rule: map_put.induct) auto

lemma map_of_map_put_other: "k' \<noteq> k \<Longrightarrow> map_of (map_put m k v) k' = map_of m k'"
  by (induction m k v rule: map_put.induct) auto

lemma set_map_put_keys: "fst ` set (map_put m k v) = insert k (fst ` set m)"
  by (induction m k v rule: map_put.induct) auto

lemma map_ok_map_put: "map_ok m \<Longrightarrow> map_ok (map_put m k v)"
proof (induction m k v rule: map_put.induct)
  case (1 k v)
  then show ?case by (simp add: map_ok_def)
next
  case (2 k' v' m k v)
  then show ?case
    by (auto simp: map_ok_def set_map_put_keys image_iff)
qed

section \<open>The resolver\<close>

lemma c_rem_bounds: "- 72 < c_rem a 72 \<and> c_rem a 72 < 72"
proof -
  have "0 \<le> \<bar>a\<bar> mod 72" and "\<bar>a\<bar> mod 72 < 72" by simp_all
  then show ?thesis by (auto simp: c_rem_def sgn_if)
qed

lemma c_rem_nonneg: "0 \<le> a \<Longrightarrow> 0 \<le> c_rem a 72"
  by (simp add: c_rem_def sgn_if)

lemma foldl_nonneg:
  "(\<And>a c. (0::int) \<le> a \<Longrightarrow> 0 \<le> f a c) \<Longrightarrow> 0 \<le> a \<Longrightarrow> 0 \<le> foldl f a s"
  by (induction s arbitrary: a) auto

lemma pythag_sum_nonneg: "0 \<le> pythag_sum s"
  unfolding pythag_sum_def by (rule foldl_nonneg) (auto simp: Let_def)

lemma sum_digits_nonneg: "0 \<le> sum_digits s"
  unfolding sum_digits_def by (rule foldl_nonneg) auto

text \<open>
  Whatever the seed, the result lies between -70 and 72; with a seed that is not
  negative it is a worker id between 1 and 72.
\<close>

lemma resolve_range_all: "- 70 \<le> resolve n \<and> resolve n \<le> 72"
  using c_rem_bounds [of "3 * pythag_sum (title n) + 2 * sum_digits (arcana n)
                           + 2 * (day_mod_36 (timestamp n) * 2) + c_rem (seed n) 72"]
  by (simp add: resolve_def Let_def)

lemma resolve_range_nonneg_seed:
  assumes s: "0 \<le> seed n"
  shows "1 \<le> resolve n \<and> resolve n \<le> 72"
proof -
  let ?score = "3 * pythag_sum (title n) + 2 * sum_digits (arcana n)
                  + 2 * (day_mod_36 (timestamp n) * 2) + c_rem (seed n) 72"
  have "0 \<le> ?score"
    using pythag_sum_nonneg [of "title n"] sum_digits_nonneg [of "arcana n"] c_rem_nonneg [OF s]
    by (simp add: day_mod_36_def)
  then have "0 \<le> c_rem ?score 72" by (rule c_rem_nonneg)
  moreover have "c_rem ?score 72 < 72" using c_rem_bounds by blast
  ultimately show ?thesis by (simp add: resolve_def Let_def)
qed

text \<open>
  Claim C2.  \<open>Resolver::resolve\<close> is a function of the node alone, but its result is not
  always a worker id in the range from 1 to 72: the remainder of C++ keeps the sign of
  a negative seed, and the node with an empty title, the arcana \<open>0\<close> and the seed -1
  resolves to 0.
\<close>

theorem resolve_negative_seed:
  "resolve \<lparr>title = [], arcana = ''0'', seed = - 1, timestamp = []\<rparr> = 0"
  by (simp add: resolve_def pythag_sum_def sum_digits_def day_mod_36_def c_rem_def
        isdigit_def digit_val_def)

section \<open>Dispatch\<close>

lemma ensure_default_headers_content_type:
  "map_of (res_headers (ensure_default_headers r)) ''Content-Type'' =
     Some (case map_of (res_headers r) ''Content-Type'' of
             Some ct \<Rightarrow> ct | None \<Rightarrow> ''text/plain'')"
  by (auto simp: ensure_default_headers_def map_of_map_put_same)

lemma strip_query_plain: "CHR ''?'' \<notin> set p \<Longrightarrow> strip_query p = p"
proof -
  have "CHR ''?'' \<notin> set p \<Longrightarrow> find_str ''?'' p = None"
    by (induction p) (auto simp: starts_with_def)
  then show "CHR ''?'' \<notin> set p \<Longrightarrow> strip_query p = p"
    by (simp add: strip_query_def str_find_def)
qed

lemma serve_file_routes:
  "serve_file (s\<lparr>get_handlers := g, post_handlers := p\<rparr>) fs rel res = serve_file s fs rel res"
  by (simp add: serve_file_def)

text \<open>
  Claim C1, as amended.  The method selects the POST table when it is exactly \<open>POST\<close>
  and the GET table in every other case.  A handler found in the selected table under
  the path without its query runs, and the response gets its default headers.  With no
  handler in the selected table, dispatch runs none and does what a server without any
  route does: it goes on to the static files.
\<close>

theorem dispatch_table_selection:
  "(req_method req = ''POST'' \<longrightarrow> selected_handlers s req = post_handlers s)
   \<and> (req_method req \<noteq> ''POST'' \<longrightarrow> selected_handlers s req = get_handlers s)
   \<and> (\<forall>h r. selected_handlers s req (strip_query (req_path req)) = Some h \<and> h req res = Some r
         \<longrightarrow> dispatch s fs req res
               = Some \<lparr>handled = True, response = ensure_default_headers r, opened = [],
                       left_by = RouteHandled\<rparr>)
   \<and> (selected_handlers s req (strip_query (req_path req)) = None
         \<longrightarrow> dispatch s fs req res
               = dispatch (s\<lparr>get_handlers := Map.empty, post_handlers := Map.empty\<rparr>) fs req res
             \<and> (\<exists>d. dispatch s fs req res = Some d \<and> left_by d \<noteq> RouteHandled))"
proof -
  have "dispatch s fs req res
          = dispatch (s\<lparr>get_handlers := Map.empty, post_handlers := Map.empty\<rparr>) fs req res"
    if "selected_handlers s req (strip_query (req_path req)) = None"
    using that by (simp add: dispatch_def selected_handlers_def serve_file_routes Let_def)
  moreover have "\<exists>d. dispatch s fs req res = Some d \<and> left_by d \<noteq> RouteHandled"
    if "selected_handlers s req (strip_query (req_path req)) = None"
    using that
    by (auto simp: dispatch_def selected_handlers_def Let_def split: prod.splits bool.splits)
  moreover have "dispatch s fs req res
               = Some \<lparr>handled = True, response = ensure_default_headers r, opened = [],
                       left_by = RouteHandled\<rparr>"
    if "selected_handlers s req (strip_query (req_path req)) = Some h" and "h req res = Some r"
    for h r
    using that by (simp add: dispatch_def selected_handlers_def Let_def)
  ultimately show ?thesis
    by (simp add: selected_handlers_def)
qed

text \<open>
  A server with one GET route and one POST route: a \<open>POST\<close> request runs the POST
  handler, a \<open>DELETE\<close> request runs the GET handler of its path, and a \<open>DELETE\<close> request
  to the path of the POST route is a miss that ends at the static files.
\<close>

theorem dispatch_table_selection_witness:
  "dispatch (Post (Get new_server ''/r'' health_handler) ''/p'' health_handler) (\<lambda>p. None)
     \<lparr>req_method = ''POST'', req_path = ''/p'', req_body = [], req_headers = []\<rparr>
     new_response
   = Some \<lparr>handled = True,
           response = \<lparr>res_status = 200, res_body = ''ok'',
                       res_headers = [(''Content-Type'', ''text/html'')]\<rparr>,
           opened = [], left_by = RouteHandled\<rparr>
   \<and> dispatch (Post (Get new_server ''/r'' health_handler) ''/p'' health_handler) (\<lambda>p. None)
       \<lparr>req_method = ''DELETE'', req_path = ''/r'', req_body = [], req_headers = []\<rparr>
       new_response
     = Some \<lparr>handled = True,
             response = \<lparr>res_status = 200, res_body = ''ok'',
                         res_headers = [(''Content-Type'', ''text/html'')]\<rparr>,
             opened = [], left_by = RouteHandled\<rparr>
   \<and> dispatch (Post (Get new_server ''/r'' health_handler) ''/p'' health_handler) (\<lambda>p. None)
       \<lparr>req_method = ''DELETE'', req_path = ''/p'', req_body = [], req_headers = []\<rparr>
       new_response
     = Some \<lparr>handled = False,
             response = \<lparr>res_status = 404, res_body = ''not_found'', res_headers = []\<rparr>,
             opened = [''./p''], left_by = NotFound\<rparr>"
proof -
  let ?s = "Post (Get new_server ''/r'' health_handler) ''/p'' health_handler"
  let ?post = "\<lparr>req_method = ''POST'', req_path = ''/p'', req_body = [], req_headers = []\<rparr>"
  let ?del = "\<lparr>req_method = ''DELETE'', req_path = ''/r'', req_body = [], req_headers = []\<rparr>"
  let ?miss = "\<lparr>req_method = ''DELETE'', req_path = ''/p'', req_body = [], req_headers = []\<rparr>"
  let ?ok = "\<lparr>res_status = 200, res_body = ''ok'',
              res_headers = [(''Content-Type'', ''text/html'')]\<rparr>"
  have run: "health_handler req new_response = Some ?ok" for req
    by (simp add: health_handler_def set_content_def new_response_def)
  have dflt: "ensure_default_headers ?ok = ?ok"
    by (simp add: ensure_default_headers_def)
  have "selected_handlers ?s ?post (strip_query (req_path ?post)) = Some health_handler"
    by (simp add: strip_query_plain selected_handlers_def Get_def Post_def new_server_def)
  with dispatch_table_selection [of ?post ?s new_response "\<lambda>p. None"] run [of ?post]
  have a: "dispatch ?s (\<lambda>p. None) ?post new_response
             = Some \<lparr>handled = True, response = ensure_default_headers ?ok, opened = [],
                     left_by = RouteHandled\<rparr>"
    by blast
  have "selected_handlers ?s ?del (strip_query (req_path ?del)) = Some health_handler"
    by (simp add: strip_query_plain selected_handlers_def Get_def Post_def new_server_def)
  with dispatch_table_selection [of ?del ?s new_response "\<lambda>p. None"] run [of ?del]
  have b: "dispatch ?s (\<lambda>p. None) ?del new_response
             = Some \<lparr>handled = True, response = ensure_default_headers ?ok, opened = [],
                     left_by = RouteHandled\<rparr>"
    by blast
  have "selected_handlers ?s ?miss (strip_query (req_path ?miss)) = None"
    by (simp add: strip_query_plain selected_handlers_def Get_def Post_def new_server_def)
  with dispatch_table_selection [of ?miss ?s new_response "\<lambda>p. None"]
  have "dispatch ?s (\<lambda>p. None) ?miss new_response
          = dispatch (?s\<lparr>get_handlers := Map.empty, post_handlers := Map.empty\<rparr>)
              (\<lambda>p. None) ?miss new_response"
    by blast
  also have "\<dots> = Some \<lparr>handled = False,
             response = \<lparr>res_status = 404, res_body = ''not_found'', res_headers = []\<rparr>,
             opened = [''./p''], left_by = NotFound\<rparr>"
    by (simp add: dispatch_def strip_query_plain Get_def Post_def new_server_def
          starts_with_def serve_file_def str_find_def not_found_def new_response_def)
  finally have c: "dispatch ?s (\<lambda>p. None) ?miss new_response
          = Some \<lparr>handled = False,
             response = \<lparr>res_status = 404, res_body = ''not_found'', res_headers = []\<rparr>,
             opened = [''./p''], left_by = NotFound\<rparr>" .
  from a b c show ?thesis by (simp only: dflt)
qed

text \<open>
  Claim C1 as stated fails: a \<open>PUT\<close> request to a path of the GET table is no miss,
  the GET handler runs.
\<close>

theorem dispatch_put_runs_get_handler:
  "dispatch (Get new_server ''/registry'' health_handler) (\<lambda>p. None)
     \<lparr>req_method = ''PUT'', req_path = ''/registry'', req_body = [], req_headers = []\<rparr>
     new_response
   = Some \<lparr>handled = True,
           response = \<lparr>res_status = 200, res_body = ''ok'',
                       res_headers = [(''Content-Type'', ''text/html'')]\<rparr>,
           opened = [], left_by = RouteHandled\<rparr>"
  by (simp add: dispatch_def strip_query_plain Get_def new_server_def health_handler_def
        ensure_default_headers_def set_content_def new_response_def)

text \<open>
  Claim C7.  When the method is \<open>GET\<close> and the path without its query is in the GET
  table, or the method is \<open>POST\<close> and that path is in the POST table, and the handler
  returns, then dispatch succeeds and the response has a \<open>Content-Type\<close> header: the
  one the handler left, or \<open>text/plain\<close> when it left none.
\<close>

theorem dispatch_route_content_type:
  assumes "(req_method req = ''GET'' \<and> get_handlers s (strip_query (req_path req)) = Some h)
         \<or> (req_method req = ''POST'' \<and> post_handlers s (strip_query (req_path req)) = Some h)"
      and "h req res = Some r"
  shows "\<exists>d. dispatch s fs req res = Some d \<and> handled d \<and> left_by d = RouteHandled
           \<and> map_of (res_headers (response d)) ''Content-Type''
               = Some (case map_of (res_headers r) ''Content-Type'' of
                         Some ct \<Rightarrow> ct | None \<Rightarrow> ''text/plain'')"
  using assms
  by (auto simp: dispatch_def Let_def ensure_default_headers_content_type)

theorem dispatch_route_content_type_witness:
  "\<exists>d. dispatch (Post new_server ''/echo'' (\<lambda>req res. Some (res\<lparr>res_body := req_body req\<rparr>)))
          (\<lambda>p. None)
          \<lparr>req_method = ''POST'', req_path = ''/echo?x=1'', req_body = ''hi'', req_headers = []\<rparr>
          new_response = Some d
       \<and> handled d \<and> left_by d = RouteHandled
       \<and> map_of (res_headers (response d)) ''Content-Type'' = Some ''text/plain''"
proof -
  let ?h = "\<lambda>req res. Some (res\<lparr>res_body := req_body req\<rparr>)"
  let ?s = "Post new_server ''/echo'' ?h"
  let ?req = "\<lparr>req_method = ''POST'', req_path = ''/echo?x=1'', req_body = ''hi'', req_headers = []\<rparr>"
  have p: "strip_query (req_path ?req) = ''/echo''"
    by (simp add: strip_query_def str_find_def starts_with_def substr_def)
  have a: "(req_method ?req = ''GET'' \<and> get_handlers ?s (strip_query (req_path ?req)) = Some ?h)
         \<or> (req_method ?req = ''POST'' \<and> post_handlers ?s (strip_query (req_path ?req)) = Some ?h)"
    unfolding p by (simp add: Post_def)
  have b: "?h ?req new_response = Some (new_response\<lparr>res_body := ''hi''\<rparr>)"
    by simp
  from dispatch_route_content_type [OF a b, of "\<lambda>p. None"]
  show ?thesis by (simp add: new_response_def)
qed

text \<open>
  Claim C4.  On a server with a mount prefix configured (the prefix is not empty),
  when the selected table has no handler for the path, the mount prefix is a prefix of
  the path, and the remainder of the path contains two dots in a row, then dispatch
  fails with status 403 and the body \<open>forbidden\<close>, and tries to open no file.
\<close>

theorem dispatch_traversal_forbidden:
  assumes nomatch: "selected_handlers s req (strip_query (req_path req)) = None"
      and mp: "mount_point s \<noteq> []"
      and pre: "starts_with (mount_point s) (strip_query (req_path req))"
      and dots: "mount_remainder (mount_point s) (strip_query (req_path req)) = u @ ''..'' @ v"
  shows "dispatch s fs req res
           = Some \<lparr>handled = False,
                   response = res\<lparr>res_status := 403, res_body := ''forbidden''\<rparr>,
                   opened = [], left_by = TraversalForbidden\<rparr>"
proof -
  let ?p = "strip_query (req_path req)"
  let ?r0 = "drop (length (mount_point s)) ?p"
  let ?r1 = "if ?r0 \<noteq> [] \<and> hd ?r0 = CHR ''/'' then tl ?r0 else ?r0"
  have r1: "?r1 = u @ ''..'' @ v"
    using dots by (simp add: mount_remainder_def Let_def)
  then have ne: "?r1 \<noteq> []" by simp
  have neq: "?p \<noteq> mount_point s"
  proof
    assume "?p = mount_point s"
    then have "?r0 = []" by simp
    with ne show False by simp
  qed
  have "find_str ''..'' ?r1 \<noteq> None"
    unfolding r1 by (rule find_str_contains)
  then have found: "str_find ?r1 ''..'' 0 \<noteq> None"
    by (simp add: str_find_def)
  show ?thesis
    using nomatch mp pre neq ne found
    by (simp add: dispatch_def selected_handlers_def Let_def)
qed

text \<open>
  The request of the specification: \<open>/assets/../../etc/passwd\<close> under the mount prefix
  \<open>/assets\<close> with the directory \<open>./public\<close>, on a file system where every path
  names a readable file.
\<close>

theorem dispatch_traversal_forbidden_witness:
  "dispatch (snd (set_mount_point new_server ''/assets'' ''./public'')) (\<lambda>p. Some ''secret'')
     \<lparr>req_method = ''GET'', req_path = ''/assets/../../etc/passwd'', req_body = [],
      req_headers = []\<rparr>
     new_response
   = Some \<lparr>handled = False,
           response = \<lparr>res_status = 403, res_body = ''forbidden'', res_headers = []\<rparr>,
           opened = [], left_by = TraversalForbidden\<rparr>"
proof -
  let ?s = "snd (set_mount_point new_server ''/assets'' ''./public'')"
  let ?req = "\<lparr>req_method = ''GET'', req_path = ''/assets/../../etc/passwd'', req_body = [],
               req_headers = []\<rparr>"
  have p: "strip_query (req_path ?req) = ''/assets/../../etc/passwd''"
    by (simp add: strip_query_plain)
  have mpt: "mount_point ?s = ''/assets''"
    by (simp add: set_mount_point_def)
  have a: "selected_handlers ?s ?req (strip_query (req_path ?req)) = None"
    by (simp add: selected_handlers_def set_mount_point_def new_server_def)
  have b: "mount_point ?s \<noteq> []"
    by (simp add: mpt)
  have c: "starts_with (mount_point ?s) (strip_query (req_path ?req))"
    unfolding p mpt by (simp add: starts_with_def)
  have d: "mount_remainder (mount_point ?s) (strip_query (req_path ?req))
             = [] @ ''..'' @ ''/../etc/passwd''"
    unfolding p mpt by (simp add: mount_remainder_def)
  from dispatch_traversal_forbidden [OF a b c d, of "\<lambda>p. Some ''secret''" new_response]
  show ?thesis by (simp add: new_response_def)
qed

text \<open>
  With an empty mount prefix no mount point is configured and the static files are not
  active: an unmatched request gets the 404 of that state and no file is opened,
  whatever its path.
\<close>

lemma dispatch_mount_point_empty:
  assumes "selected_handlers s req (strip_query (req_path req)) = None"
      and "mount_point s = []"
  shows "dispatch s fs req res
           = Some \<lparr>handled = False, response = not_found res, opened = [],
                   left_by = MountPointEmpty\<rparr>"
  using assms by (simp add: dispatch_def selected_handlers_def Let_def)

lemma mount_point_apply_setup:
  "\<not> mounts_empty_prefix c \<Longrightarrow> mount_point s \<noteq> [] \<Longrightarrow> mount_point (apply_setup s c) \<noteq> []"
  by (cases c) (simp_all add: Get_def Post_def set_mount_point_def)

lemma mount_point_configure:
  "\<forall>c \<in> set calls. \<not> mounts_empty_prefix c \<Longrightarrow> mount_point s \<noteq> []
     \<Longrightarrow> mount_point (configure s calls) \<noteq> []"
  unfolding configure_def
  by (induction calls arbitrary: s) (simp_all add: mount_point_apply_setup)

text \<open>
  Claim C10, as amended.  \<open>set_mount_point\<close> returns true for all arguments, and a new
  server has the mount prefix \<open>/\<close> and the directory \<open>.\<close>.  On a server configured
  from a new one by calls none of which sets an empty mount prefix (in particular when
  \<open>set_mount_point\<close> is never called), dispatch never leaves by the 404 of the empty
  mount point.
\<close>

theorem mount_point_branch_unreachable:
  "fst (set_mount_point s0 mp dir) = True
   \<and> mount_point new_server = ''/'' \<and> mount_dir new_server = ''.''
   \<and> ((\<forall>c \<in> set calls. \<not> mounts_empty_prefix c)
        \<longrightarrow> mount_point (configure new_server calls) \<noteq> []
            \<and> (\<forall>d. dispatch (configure new_server calls) fs req res = Some d
                   \<longrightarrow> left_by d \<noteq> MountPointEmpty))"
proof -
  have "mount_point (configure new_server calls) \<noteq> []"
    if "\<forall>c \<in> set calls. \<not> mounts_empty_prefix c"
    using that by (rule mount_point_configure) (simp add: new_server_def)
  moreover have "left_by d \<noteq> MountPointEmpty"
    if "mount_point s \<noteq> []" and "dispatch s fs req res = Some d" for s d
    using that
    by (auto simp: dispatch_def Let_def split: option.splits if_splits prod.splits bool.splits)
  ultimately show ?thesis
    by (auto simp: set_mount_point_def new_server_def)
qed

theorem mount_point_branch_unreachable_witness:
  "fst (set_mount_point new_server ''/static'' ''www'') = True
   \<and> mount_point (configure new_server [SetupGet ''/ping'' health_handler]) \<noteq> []
   \<and> dispatch (configure new_server [SetupGet ''/ping'' health_handler]) (\<lambda>p. None)
        \<lparr>req_method = ''GET'', req_path = ''/nowhere'', req_body = [], req_headers = []\<rparr>
        new_response
      = Some \<lparr>handled = False,
              response = \<lparr>res_status = 404, res_body = ''not_found'', res_headers = []\<rparr>,
              opened = [''./nowhere''], left_by = NotFound\<rparr>"
proof -
  let ?calls = "[SetupGet ''/ping'' health_handler]"
  have a: "\<forall>c \<in> set ?calls. \<not> mounts_empty_prefix c" by simp
  have d: "dispatch (configure new_server ?calls) (\<lambda>p. None)
        \<lparr>req_method = ''GET'', req_path = ''/nowhere'', req_body = [], req_headers = []\<rparr>
        new_response
      = Some \<lparr>handled = False,
              response = \<lparr>res_status = 404, res_body = ''not_found'', res_headers = []\<rparr>,
              opened = [''./nowhere''], left_by = NotFound\<rparr>"
    by (simp add: dispatch_def strip_query_plain configure_def Get_def new_server_def
          starts_with_def serve_file_def str_find_def not_found_def new_response_def)
  from mount_point_branch_unreachable [of new_server "''/static''" "''www''" ?calls
         "\<lambda>p. None"
         "\<lparr>req_method = ''GET'', req_path = ''/nowhere'', req_body = [], req_headers = []\<rparr>"
         new_response] a d
  show ?thesis by simp
qed

text \<open>
  Claim C10 as stated fails: after \<open>set_mount_point\<close> with an empty prefix, which
  returns true like every call, an unmatched request leaves dispatch by the 404 of the
  empty mount point.
\<close>

theorem mount_point_branch_reached:
  "fst (set_mount_point new_server [] ''.'') = True
   \<and> dispatch (snd (set_mount_point new_server [] ''.'')) (\<lambda>p. None)
        \<lparr>req_method = ''GET'', req_path = ''/index.html'', req_body = [], req_headers = []\<rparr>
        new_response
      = Some \<lparr>handled = False,
              response = \<lparr>res_status = 404, res_body = ''not_found'', res_headers = []\<rparr>,
              opened = [], left_by = MountPointEmpty\<rparr>"
  by (simp add: dispatch_def strip_query_plain set_mount_point_def new_server_def
        not_found_def new_response_def)


section \<open>Writing the response\<close>

lemma foldl_append_lines: "foldl (\<lambda>b e. b @ f e) acc xs = acc @ concat (map f xs)"
  by (induction xs arbitrary: acc) simp_all

lemma status_message_table:
  "status_message st = (case map_of reason_table st of Some r \<Rightarrow> r | None \<Rightarrow> ''OK'')"
  by (simp add: status_message_def reason_table_def)

lemma digit_val_digit: "d < 10 \<Longrightarrow> digit_val (''0123456789'' ! d) = d"
proof -
  assume "d < 10"
  then have "d \<in> {0, 1, 2, 3, 4, 5, 6, 7, 8, 9}" by auto
  then show ?thesis by (auto simp: digit_val_def)
qed

lemma digits_value_snoc: "digits_value (ds @ [c]) = 10 * digits_value ds + digit_val c"
  by (simp add: digits_value_def)

lemma dec_nat_roundtrip: "digits_value (dec_nat n) = n"
proof (induction n rule: dec_nat.induct)
  case (1 n)
  show ?case
  proof (cases "n < 10")
    case True
    then show ?thesis
      by (subst dec_nat.simps) (simp add: digits_value_def digit_val_digit)
  next
    case False
    with 1 have "digits_value (dec_nat (n div 10)) = n div 10" by simp
    with False show ?thesis
      by (subst dec_nat.simps) (simp add: digits_value_snoc digit_val_digit)
  qed
qed

lemma send_loop_all:
  "\<forall>w \<in> set ws. 0 < w \<Longrightarrow> int len \<le> int sent + sum_list ws \<Longrightarrow> len \<le> send_loop len sent ws"
proof (induction ws arbitrary: sent)
  case Nil
  then show ?case by (subst send_loop.simps) simp
next
  case (Cons w ws)
  show ?case
  proof (cases "sent < len")
    case True
    from Cons.prems have "0 < w" by simp
    moreover from Cons.prems have "\<forall>w \<in> set ws. 0 < w" by simp
    moreover from Cons.prems \<open>0 < w\<close> have "int len \<le> int (sent + nat w) + sum_list ws" by simp
    ultimately have "len \<le> send_loop len (sent + nat w) ws"
      using Cons.IH by blast
    with True \<open>0 < w\<close> show ?thesis by (subst send_loop.simps) simp
  next
    case False
    then show ?thesis by (subst send_loop.simps) simp
  qed
qed

text \<open>
  Claim C6.  The bytes built by \<open>send_response\<close> are the status line with the reason of
  the fixed table, or \<open>OK\<close> for a status that is not in it, a line for every entry of
  the header map in the order of the map, the \<open>Content-Length\<close> line with the decimal
  length of the body, the line \<open>Connection: close\<close>, an empty line, and the body.
  The decimal number reads back as the length of the body, the keys of a well-formed
  map are strictly increasing, and all the bytes reach the client when every call of
  \<open>send\<close> succeeds.
\<close>

theorem send_response_format:
  "response_bytes res
     = ''HTTP/1.1 '' @ dec_int (res_status res) @ '' ''
         @ (case map_of reason_table (res_status res) of Some r \<Rightarrow> r | None \<Rightarrow> ''OK'') @ CRLF
         @ concat (map (\<lambda>entry. fst entry @ '': '' @ snd entry @ CRLF) (res_headers res))
         @ ''Content-Length: '' @ dec_nat (length (res_body res)) @ CRLF
         @ ''Connection: close'' @ CRLF @ CRLF
         @ res_body res
   \<and> digits_value (dec_nat (length (res_body res))) = length (res_body res)
   \<and> (map_ok (res_headers res) \<longrightarrow> sorted_wrt (<) (map fst (res_headers res)))
   \<and> ((\<forall>w \<in> set ws. 0 < w) \<and> int (length (response_bytes res)) \<le> sum_list ws
        \<longrightarrow> send_response ws res = response_bytes res)"
proof -
  have "send_response ws res = response_bytes res"
    if "\<forall>w \<in> set ws. 0 < w" and "int (length (response_bytes res)) \<le> sum_list ws"
    using send_loop_all [of ws "length (response_bytes res)" 0] that
    by (simp add: send_response_def Let_def)
  moreover have "sorted_wrt (<) (map fst (res_headers res))" if "map_ok (res_headers res)"
    using that by (simp add: map_ok_def strict_sorted_iff)
  moreover have "header_line = (\<lambda>entry. fst entry @ '': '' @ snd entry @ CRLF)"
    by (rule ext) (simp add: header_line_def)
  ultimately show ?thesis
    by (simp add: response_bytes_def Let_def foldl_append_lines status_message_table
          dec_nat_roundtrip)
qed

theorem send_response_format_witness:
  "send_response [10, 200]
     (set_header (set_content (new_response\<lparr>res_status := 404\<rparr>) ''not_found'' ''text/plain'')
        ''Allow'' ''GET'')
   = ''HTTP/1.1 404 Not Found'' @ CRLF
       @ ''Allow: GET'' @ CRLF
       @ ''Content-Type: text/plain'' @ CRLF
       @ ''Content-Length: 9'' @ CRLF
       @ ''Connection: close'' @ CRLF @ CRLF
       @ ''not_found''
   \<and> sorted_wrt (<)
         (map fst (res_headers
            (set_header (set_content (new_response\<lparr>res_status := 404\<rparr>) ''not_found''
                           ''text/plain'') ''Allow'' ''GET'')))"
proof -
  let ?res = "set_header (set_content (new_response\<lparr>res_status := 404\<rparr>) ''not_found''
                ''text/plain'') ''Allow'' ''GET''"
  have hs: "res_headers ?res = [(''Allow'', ''GET''), (''Content-Type'', ''text/plain'')]"
    by (simp add: set_header_def set_content_def new_response_def)
  have st: "res_status ?res = 404" and bd: "res_body ?res = ''not_found''"
    by (simp_all add: set_header_def set_content_def new_response_def)
  have d1: "dec_int 404 = ''404''" by (simp add: dec_int_def dec_nat.simps)
  have d2: "dec_nat (length ''not_found'') = ''9''" by (simp add: dec_nat.simps)
  have "response_bytes ?res
     = ''HTTP/1.1 '' @ dec_int (res_status ?res) @ '' ''
         @ (case map_of reason_table (res_status ?res) of Some r \<Rightarrow> r | None \<Rightarrow> ''OK'') @ CRLF
         @ concat (map (\<lambda>entry. fst entry @ '': '' @ snd entry @ CRLF) (res_headers ?res))
         @ ''Content-Length: '' @ dec_nat (length (res_body ?res)) @ CRLF
         @ ''Connection: close'' @ CRLF @ CRLF
         @ res_body ?res"
    using send_response_format [of ?res "[10, 200]"] by (rule conjunct1)
  then have bytes: "response_bytes ?res
     = ''HTTP/1.1 404 Not Found'' @ CRLF
       @ ''Allow: GET'' @ CRLF
       @ ''Content-Type: text/plain'' @ CRLF
       @ ''Content-Length: 9'' @ CRLF
       @ ''Connection: close'' @ CRLF @ CRLF
       @ ''not_found''"
    unfolding hs st bd d1 d2 by (simp add: reason_table_def)
  have len: "int (length (response_bytes ?res)) \<le> sum_list [10, 200]"
    unfolding bytes by (simp add: CRLF_def)
  have pos: "\<forall>w \<in> set [10, 200 :: int]. 0 < w" by simp
  have wf: "map_ok (res_headers ?res)"
    by (simp add: set_header_def set_content_def new_response_def map_ok_map_put map_ok_def)
  from send_response_format [of ?res "[10, 200]"] pos len
  have "send_response [10, 200] ?res = response_bytes ?res" by blast
  with bytes have a: "send_response [10, 200] ?res
     = ''HTTP/1.1 404 Not Found'' @ CRLF
       @ ''Allow: GET'' @ CRLF
       @ ''Content-Type: text/plain'' @ CRLF
       @ ''Content-Length: 9'' @ CRLF
       @ ''Connection: close'' @ CRLF @ CRLF
       @ ''not_found''"
    by simp
  from send_response_format [of ?res "[10, 200]"] wf
  have b: "sorted_wrt (<) (map fst (res_headers ?res))" by blast
  from a b show ?thesis by (rule conjI)
qed

section \<open>Framing\<close>

lemma starts_with_length: "starts_with n s \<Longrightarrow> length n \<le> length s"
proof -
  assume "starts_with n s"
  then have "length (take (length n) s) = length n" by (simp add: starts_with_def)
  then show ?thesis by simp
qed

lemma starts_with_append: "starts_with n xs \<Longrightarrow> starts_with n (xs @ ys)"
  using starts_with_length [of n xs] by (simp add: starts_with_def)

lemma starts_with_append_iff:
  "length n \<le> length xs \<Longrightarrow> starts_with n (xs @ ys) = starts_with n xs"
  by (simp add: starts_with_def)

lemma find_str_bound: "find_str n s = Some i \<Longrightarrow> i + length n \<le> length s"
proof (induction s arbitrary: i)
  case Nil
  then show ?case by (simp split: if_splits)
next
  case (Cons x s)
  show ?case
  proof (cases "starts_with n (x # s)")
    case True
    with Cons.prems starts_with_length [OF True] show ?thesis by simp
  next
    case False
    with Cons.prems obtain j where "find_str n s = Some j" and "i = Suc j" by auto
    with Cons.IH show ?thesis by fastforce
  qed
qed

lemma find_str_append: "find_str n xs = Some i \<Longrightarrow> find_str n (xs @ ys) = Some i"
proof (induction xs arbitrary: i)
  case Nil
  then have "n = []" and "i = 0" by (simp_all split: if_splits)
  then show ?case using find_str_prefix [of "[]" ys] by simp
next
  case (Cons x xs)
  show ?case
  proof (cases "starts_with n (x # xs)")
    case True
    with Cons.prems starts_with_append [OF True, of ys] show ?thesis by simp
  next
    case False
    with Cons.prems obtain j where j: "find_str n xs = Some j" and i: "i = Suc j" by auto
    from find_str_bound [OF j] have "length n \<le> length (x # xs)" by simp
    then have "starts_with n ((x # xs) @ ys) = starts_with n (x # xs)"
      by (rule starts_with_append_iff)
    with False have "\<not> starts_with n ((x # xs) @ ys)" by blast
    with Cons.IH [OF j] i show ?thesis by simp
  qed
qed

lemma str_find_0: "str_find s n 0 = find_str n s"
  by (cases "find_str n s") (simp_all add: str_find_def)

lemma str_find_0_append: "str_find xs n 0 = Some i \<Longrightarrow> str_find (xs @ ys) n 0 = Some i"
  by (simp add: str_find_0 find_str_append)

lemma str_find_0_bound: "str_find s n 0 = Some i \<Longrightarrow> i + length n \<le> length s"
  by (simp add: str_find_0 find_str_bound)

lemma size_add_exact: "a + b + c < SIZE_MOD \<Longrightarrow> size_add (size_add a b) c = a + b + c"
  by (simp add: size_add_def)

lemma concat_nonempty: "xs \<noteq> [] \<Longrightarrow> \<forall>c \<in> set xs. c \<noteq> [] \<Longrightarrow> concat xs \<noteq> []"
  by (cases xs) auto

lemma read_loop_complete:
  assumes hdr: "str_find wire (CRLF @ CRLF) 0 = Some h"
      and len: "length wire = h + 4 + N"
      and cl: "extract_content_length (substr wire 0 (h + 2)) = N"
      and fits: "length wire < SIZE_MOD"
  shows "buffer @ concat (payload rs) = wire \<Longrightarrow> length buffer < length wire
         \<Longrightarrow> Fail \<notin> set rs \<Longrightarrow> \<forall>c \<in> set (payload rs). c \<noteq> []
         \<Longrightarrow> \<forall>c \<in> set (butlast (payload rs)). length c = CHUNK
         \<Longrightarrow> (hend = None \<and> str_find buffer (CRLF @ CRLF) 0 = None) \<or> (hend = Some h \<and> clen = N)
         \<Longrightarrow> read_loop rs buffer hend clen = Some (wire, Some h, N)"
proof (induction rs arbitrary: buffer hend clen)
  case Nil
  then show ?case by simp
next
  case (Cons r rs)
  show ?case
  proof (cases r)
    case Eintr
    with Cons.prems have "read_loop rs buffer hend clen = Some (wire, Some h, N)"
      by (intro Cons.IH) simp_all
    with Eintr show ?thesis by simp
  next
    case Fail
    with Cons.prems(3) show ?thesis by simp
  next
    case (Data chunk)
    let ?b = "buffer @ chunk"
    from Data Cons.prems(4) have ne: "chunk \<noteq> []" by simp
    from Data Cons.prems(1) have split: "?b @ concat (payload rs) = wire" by simp
    have total: "size_add (size_add h 4) N = length wire"
      using size_add_exact [of h 4 N] len fits by simp
    \<comment> \<open>the header end and the content length after this chunk\<close>
    define st where "st = (case hend of
                  Some h' \<Rightarrow> (Some h', clen)
                | None \<Rightarrow>
                    (case str_find ?b (CRLF @ CRLF) 0 of
                       None \<Rightarrow> (None, clen)
                     | Some h' \<Rightarrow> (Some h', extract_content_length (substr ?b 0 (h' + 2)))))"
    have st: "(st = (None, clen) \<and> str_find ?b (CRLF @ CRLF) 0 = None) \<or> st = (Some h, N)"
    proof (cases hend)
      case (Some h')
      with Cons.prems(6) show ?thesis by (simp add: st_def)
    next
      case None
      show ?thesis
      proof (cases "str_find ?b (CRLF @ CRLF) 0")
        case n: None
        with None show ?thesis by (simp add: st_def)
      next
        case (Some h')
        from str_find_0_append [OF Some, of "concat (payload rs)"] split hdr
        have eq: "h' = h" by simp
        from str_find_0_bound [OF Some] eq have "h + 4 \<le> length ?b" by (simp add: CRLF_def)
        then have "take (h + 2) ?b = take (h + 2) (?b @ concat (payload rs))" by simp
        with split cl have "extract_content_length (substr ?b 0 (h + 2)) = N"
          by (simp add: substr_def)
        with None Some eq show ?thesis by (simp add: st_def)
      qed
    qed
    have step: "read_loop (r # rs) buffer hend clen =
        (if (case fst st of None \<Rightarrow> False
             | Some h' \<Rightarrow> size_add (size_add h' 4) (snd st) \<le> length ?b)
         then Some (?b, fst st, snd st)
         else if length chunk < CHUNK then Some (?b, fst st, snd st)
         else read_loop rs ?b (fst st) (snd st))"
      using ne unfolding Data st_def
      by (simp add: Let_def split_beta)
    show ?thesis
    proof (cases "payload rs = []")
      case True
      with split have whole: "?b = wire" by simp
      with st hdr have "st = (Some h, N)" by auto
      with whole total show ?thesis by (simp add: step)
    next
      case False
      with Cons.prems(4) Data have "concat (payload rs) \<noteq> []"
        by (intro concat_nonempty) simp_all
      with split have short: "length ?b < length wire"
        by (metis append_eq_conv_conj append_self_conv le_neq_implies_less length_append
              length_take min.cobounded1 nat_le_linear take_all)
      from False Data Cons.prems(5) have "length chunk = CHUNK" by simp
      moreover have "\<not> (case fst st of None \<Rightarrow> False
             | Some h' \<Rightarrow> size_add (size_add h' 4) (snd st) \<le> length ?b)"
        using st total short by auto
      ultimately have "read_loop (r # rs) buffer hend clen = read_loop rs ?b (fst st) (snd st)"
        by (simp add: step)
      also have "\<dots> = Some (wire, Some h, N)"
      proof (rule Cons.IH [OF split short])
        show "Fail \<notin> set rs" using Cons.prems(3) by simp
        show "\<forall>c \<in> set (payload rs). c \<noteq> []" using Cons.prems(4) Data by simp
        show "\<forall>c \<in> set (butlast (payload rs)). length c = CHUNK"
          using Cons.prems(5) Data False by simp
        show "(fst st = None \<and> str_find ?b (CRLF @ CRLF) 0 = None) \<or> (fst st = Some h \<and> snd st = N)"
          using st by auto
      qed
      finally show ?thesis .
    qed
  qed
qed

lemma parse_request_body:
  "parse_request raw out = Some pr
     \<Longrightarrow> req_body (request pr) = substr raw (header_end out + 4) (content_length out)
         \<and> header_end pr = header_end out \<and> content_length pr = content_length out"
  by (auto simp: parse_request_def Let_def split: option.splits prod.splits if_splits)

lemma read_request_whole:
  assumes hdr: "str_find wire (CRLF @ CRLF) 0 = Some h"
      and len: "length wire = h + 4 + N"
      and cl: "extract_content_length (substr wire 0 (h + 2)) = N"
      and fits: "length wire < SIZE_MOD"
      and parts: "concat (payload rs) = wire"
      and nofail: "Fail \<notin> set rs"
      and chunks: "\<forall>c \<in> set (payload rs). c \<noteq> []"
      and full: "\<forall>c \<in> set (butlast (payload rs)). length c = CHUNK"
  shows "read_request rs
           = parse_request wire \<lparr>request = empty_request, header_end = h, content_length = N\<rparr>"
proof -
  from len have pos: "0 < length wire" by simp
  have "read_loop rs [] None 0 = Some (wire, Some h, N)"
    using parts pos nofail chunks full
    by (intro read_loop_complete [OF hdr len cl fits]) (simp_all add: str_find_def CRLF_def)
  moreover have "size_add (size_add h 4) N = length wire"
    using size_add_exact [of h 4 N] len fits by simp
  moreover from pos have "wire \<noteq> []" by auto
  ultimately show ?thesis by (simp add: read_request_def)
qed

lemma read_request_body_length:
  assumes "read_request rs = Some pr"
      and "header_end pr + 4 + content_length pr < SIZE_MOD"
  shows "length (req_body (request pr)) = content_length pr"
proof -
  from assms(1) obtain buffer h clen where
      chk: "\<not> length buffer < size_add (size_add h 4) clen"
      and pr: "parse_request buffer \<lparr>request = empty_request, header_end = h, content_length = clen\<rparr>
                 = Some pr"
    by (auto simp: read_request_def split: option.splits prod.splits if_splits)
  from parse_request_body [OF pr]
  have b: "req_body (request pr) = substr buffer (h + 4) clen"
    and h: "header_end pr = h" and c: "content_length pr = clen" by simp_all
  from assms(2) h c have "size_add (size_add h 4) clen = h + 4 + clen"
    by (intro size_add_exact) simp
  with chk have "h + 4 + clen \<le> length buffer" by simp
  with b c show ?thesis by (simp add: substr_def)
qed


text \<open>
  \<open>extract_content_length\<close> converts the value of the first \<open>Content-Length\<close> line, and
  is 0 when there is none; \<open>strtoull\<close> is 0 on a value that does not start, after white
  space and one sign, with a digit.
\<close>

lemma extract_content_length_from_lines:
  "extract_content_length_from hdrs pos
     = (case find is_content_length_line (header_lines_from hdrs pos) of
          None \<Rightarrow> 0
        | Some line \<Rightarrow> strtoull (line_value line))"
proof (induction hdrs pos rule: extract_content_length_from.induct)
  case (1 hdrs pos)
  show ?case
  proof (cases "pos < length hdrs")
    case False
    then show ?thesis
      by (subst extract_content_length_from.simps, subst header_lines_from.simps) simp
  next
    case True
    define e where "e = (case str_find hdrs CRLF pos of None \<Rightarrow> length hdrs | Some i \<Rightarrow> i)"
    define line where "line = substr hdrs pos (e - pos)"
    have lines: "header_lines_from hdrs pos = line # header_lines_from hdrs (e + 2)"
      using True by (subst header_lines_from.simps) (simp add: e_def line_def Let_def)
    show ?thesis
    proof (cases "is_content_length_line line")
      case yes: True
      then obtain colon where c: "str_find line '':'' 0 = Some colon"
        and k: "case_insensitive_equal (trim (substr line 0 colon)) ''Content-Length''"
        by (auto simp: is_content_length_line_def split: option.splits)
      have "extract_content_length_from hdrs pos = strtoull (trim (drop (colon + 1) line))"
        using True c k
        by (subst extract_content_length_from.simps)
           (simp add: e_def [symmetric] line_def [symmetric] Let_def)
      with yes c show ?thesis by (simp add: lines line_value_def)
    next
      case no: False
      have "extract_content_length_from hdrs pos = extract_content_length_from hdrs (e + 2)"
        using True no
        by (subst extract_content_length_from.simps)
           (auto simp: e_def [symmetric] line_def [symmetric] Let_def is_content_length_line_def
                 split: option.splits)
      also have "\<dots> = (case find is_content_length_line (header_lines_from hdrs (e + 2)) of
                          None \<Rightarrow> 0 | Some line \<Rightarrow> strtoull (line_value line))"
      proof (cases "str_find line '':'' 0")
        case None
        from "1.IH"(1) [OF True e_def line_def None] show ?thesis .
      next
        case (Some colon)
        with no have "\<not> case_insensitive_equal (trim (substr line 0 colon)) ''Content-Length''"
          by (simp add: is_content_length_line_def)
        from "1.IH"(2) [OF True e_def line_def Some this] show ?thesis .
      qed
      finally show ?thesis using no by (simp add: lines)
    qed
  qed
qed

lemma extract_content_length_absent:
  "\<forall>line \<in> set (header_lines_from hdrs 0). \<not> is_content_length_line line
     \<Longrightarrow> extract_content_length hdrs = 0"
proof -
  assume "\<forall>line \<in> set (header_lines_from hdrs 0). \<not> is_content_length_line line"
  then have "find is_content_length_line (header_lines_from hdrs 0) = None"
    by (simp add: find_None_iff)
  then show ?thesis
    by (simp add: extract_content_length_def extract_content_length_from_lines)
qed

lemma strtoull_no_digit:
  assumes "s1 = dropWhile isspace v"
      and "takeWhile isdigit
             (if s1 \<noteq> [] \<and> (hd s1 = CHR ''-'' \<or> hd s1 = CHR ''+'') then tl s1 else s1) = []"
  shows "strtoull v = 0"
  unfolding strtoull_def Let_def assms(1) [symmetric] assms(2) by simp

lemma huge_request_header_end: "str_find huge_request (CRLF @ CRLF) 0 = Some 52"
  by (simp add: huge_request_def CRLF_def str_find_def starts_with_def)

lemma huge_request_content_length:
  "extract_content_length (substr huge_request 0 54) = 18446744073709551615"
  by (simp add: huge_request_def CRLF_def extract_content_length_def
        extract_content_length_from.simps substr_def str_find_def starts_with_def
        case_insensitive_equal_def trim_def isspace_def tolower_def strtoull_def
        isdigit_def digits_value_def digit_val_def SIZE_MOD_def Let_def)

lemma huge_request_parse:
  "parse_request huge_request
     \<lparr>request = empty_request, header_end = 52, content_length = 18446744073709551615\<rparr>
   = Some \<lparr>request = \<lparr>req_method = ''GET'', req_path = ''/'', req_body = [],
                        req_headers = [(''Content-Length'', ''18446744073709551615'')]\<rparr>,
           header_end = 52, content_length = 18446744073709551615\<rparr>"
  by (simp add: huge_request_def CRLF_def parse_request_def next_token_def
        parse_headers.simps substr_def str_find_def starts_with_def
        trim_def isspace_def empty_request_def Let_def)

text \<open>
  Claim C3.  The body of a parsed request does not always have the length that
  \<open>extract_content_length\<close> found: the sum \<open>header_end + 4 + content_length\<close> wraps around
  in \<open>size_t\<close>.  A request that declares \<open>Content-Length: 18446744073709551615\<close> and
  sends no body is framed and parsed, with that content length and an empty body.
\<close>

theorem read_request_huge_content_length:
  "read_request [Data huge_request]
   = Some \<lparr>request = \<lparr>req_method = ''GET'', req_path = ''/'', req_body = [],
                        req_headers = [(''Content-Length'', ''18446744073709551615'')]\<rparr>,
           header_end = 52, content_length = 18446744073709551615\<rparr>"
proof -
  have ne: "huge_request \<noteq> []" by (simp add: huge_request_def)
  have len: "length huge_request = 56" by (simp add: huge_request_def CRLF_def)
  have wrap: "size_add (size_add 52 4) 18446744073709551615 = 55"
    by (simp add: size_add_def SIZE_MOD_def)
  have "read_loop [Data huge_request] [] None 0
          = Some (huge_request, Some 52, 18446744073709551615)"
    using ne by (simp add: huge_request_header_end huge_request_content_length wrap len)
  then show ?thesis
    using ne by (simp add: read_request_def wrap len huge_request_parse)
qed

text \<open>
  Claim C5.  Let the bytes \<open>wire\<close> be a header block, whose terminator is found at \<open>h\<close>,
  followed by exactly as many body bytes as the block declares.  Let the connection
  deliver these bytes in any number of chunks, none empty, with interrupted calls in
  between but no failing call, such that every chunk but the last fills the read
  buffer (no read is short before the whole request has arrived).  Then
  \<open>read_request\<close> gives what it gives when all the bytes come in a single read, which
  is the parse of the whole; and in a parsed request the body consists of the declared
  number of bytes, those after the terminator.
\<close>

theorem read_request_reassembly:
  assumes hdr: "str_find wire (CRLF @ CRLF) 0 = Some h"
      and len: "length wire = h + 4 + extract_content_length (substr wire 0 (h + 2))"
      and fits: "length wire < SIZE_MOD"
      and parts: "concat (payload rs) = wire"
      and nofail: "Fail \<notin> set rs"
      and chunks: "\<forall>c \<in> set (payload rs). c \<noteq> []"
      and full: "\<forall>c \<in> set (butlast (payload rs)). length c = CHUNK"
  shows "read_request rs = read_request [Data wire]
       \<and> read_request rs
           = parse_request wire
               \<lparr>request = empty_request, header_end = h,
                content_length = extract_content_length (substr wire 0 (h + 2))\<rparr>
       \<and> (\<forall>pr. read_request rs = Some pr
              \<longrightarrow> req_body (request pr) = drop (h + 4) wire
                  \<and> length (req_body (request pr))
                      = extract_content_length (substr wire 0 (h + 2)))"
proof -
  let ?N = "extract_content_length (substr wire 0 (h + 2))"
  let ?out = "\<lparr>request = empty_request, header_end = h, content_length = ?N\<rparr>"
  have a: "read_request rs = parse_request wire ?out"
    by (rule read_request_whole [OF hdr len refl fits parts nofail chunks full])
  have "0 < length wire" by (subst len) simp
  then have ne: "wire \<noteq> []" by simp
  have b: "read_request [Data wire] = parse_request wire ?out"
    by (rule read_request_whole [OF hdr len refl fits]) (simp_all add: ne)
  have c: "req_body (request pr) = drop (h + 4) wire \<and> length (req_body (request pr)) = ?N"
    if "read_request rs = Some pr" for pr
  proof -
    from that a have "parse_request wire ?out = Some pr" by simp
    from parse_request_body [OF this]
    have "req_body (request pr) = take ?N (drop (h + 4) wire)" by (simp add: substr_def)
    moreover have "length (drop (h + 4) wire) = ?N" by (subst length_drop, subst len) simp
    ultimately show ?thesis by simp
  qed
  show ?thesis
  proof (intro conjI allI impI)
    show "read_request rs = read_request [Data wire]" by (simp only: a b)
    show "read_request rs = parse_request wire ?out" by (rule a)
  next
    fix pr assume "read_request rs = Some pr"
    then show "req_body (request pr) = drop (h + 4) wire" by (rule c [THEN conjunct1])
  next
    fix pr assume "read_request rs = Some pr"
    then show "length (req_body (request pr)) = ?N" by (rule c [THEN conjunct2])
  qed
qed

theorem read_request_reassembly_witness:
  "read_request [Data (sample_head @ replicate 4048 CHR ''x''), Eintr,
                 Data (replicate 22 CHR ''x'')]
     = read_request [Data ((sample_head @ replicate 4048 CHR ''x'') @ replicate 22 CHR ''x'')]
   \<and> read_request [Data (sample_head @ replicate 4048 CHR ''x''), Eintr,
                   Data (replicate 22 CHR ''x'')]
     = Some \<lparr>request = \<lparr>req_method = ''POST'', req_path = ''/resolve'',
                          req_body = replicate 4048 CHR ''x'' @ replicate 22 CHR ''x'',
                          req_headers = [(''Content-Length'', ''4070'')]\<rparr>,
             header_end = 44, content_length = 4070\<rparr>"
proof -
  let ?c1 = "sample_head @ replicate 4048 CHR ''x''"
  let ?c2 = "replicate 22 CHR ''x''"
  let ?wire = "?c1 @ ?c2"
  let ?rs = "[Data ?c1, Eintr, Data ?c2]"
  have hl: "length sample_head = 48" by (simp add: sample_head_def CRLF_def)
  have fs: "find_str (CRLF @ CRLF) sample_head = Some 44"
    by (simp add: sample_head_def CRLF_def starts_with_def)
  have hdr: "str_find ?wire (CRLF @ CRLF) 0 = Some 44"
    using find_str_append [OF fs, of "replicate 4048 CHR ''x'' @ ?c2"] by (simp add: str_find_0)
  have tk: "substr ?wire 0 (44 + 2) = take 46 sample_head"
    by (simp add: substr_def hl)
  have cl: "extract_content_length (substr ?wire 0 (44 + 2)) = 4070"
    unfolding tk
    by (simp add: sample_head_def CRLF_def extract_content_length_def
          extract_content_length_from.simps substr_def str_find_def starts_with_def
          case_insensitive_equal_def trim_def isspace_def tolower_def strtoull_def
          isdigit_def digits_value_def digit_val_def SIZE_MOD_def Let_def)
  have len: "length ?wire = 44 + 4 + extract_content_length (substr ?wire 0 (44 + 2))"
    unfolding cl by (simp add: hl)
  have fits: "length ?wire < SIZE_MOD" by (simp add: hl SIZE_MOD_def)
  have parts: "concat (payload ?rs) = ?wire" by simp
  have nofail: "Fail \<notin> set ?rs" by simp
  have chunks: "\<forall>c \<in> set (payload ?rs). c \<noteq> []" by (simp add: sample_head_def)
  have full: "\<forall>c \<in> set (butlast (payload ?rs)). length c = CHUNK"
    by (simp add: hl CHUNK_def)
  note main = read_request_reassembly [OF hdr len fits parts nofail chunks full]
  have pr: "parse_request ?wire \<lparr>request = empty_request, header_end = 44, content_length = 4070\<rparr>
          = Some \<lparr>request = \<lparr>req_method = ''POST'', req_path = ''/resolve'',
                          req_body = replicate 4048 CHR ''x'' @ replicate 22 CHR ''x'',
                          req_headers = [(''Content-Length'', ''4070'')]\<rparr>,
             header_end = 44, content_length = 4070\<rparr>"
    by (simp add: sample_head_def CRLF_def parse_request_def next_token_def
          parse_headers.simps substr_def str_find_def starts_with_def
          trim_def isspace_def empty_request_def Let_def)
  from main have e1: "read_request ?rs = read_request [Data ?wire]"
    by (rule conjunct1)
  from main have "read_request ?rs
      = parse_request ?wire
          \<lparr>request = empty_request, header_end = 44,
           content_length = extract_content_length (substr ?wire 0 (44 + 2))\<rparr>"
    by (rule conjunct2 [THEN conjunct1])
  then have e2: "read_request ?rs
      = Some \<lparr>request = \<lparr>req_method = ''POST'', req_path = ''/resolve'',
                          req_body = replicate 4048 CHR ''x'' @ replicate 22 CHR ''x'',
                          req_headers = [(''Content-Length'', ''4070'')]\<rparr>,
             header_end = 44, content_length = 4070\<rparr>"
    unfolding cl pr .
  from e1 e2 show ?thesis by (rule conjI)
qed

section \<open>The JSON parser\<close>

lemma skip_ws_length: "length (skip_ws s) \<le> length s"
  unfolding skip_ws_def by (rule length_dropWhile_le)

lemma parse_string_body_shorter:
  "parse_string_body s acc = Some (r, rest) \<Longrightarrow> length rest < length s"
proof (induction s acc rule: parse_string_body.induct)
  case (1 result)
  then show ?case by simp
next
  case (2 ch s result)
  show ?case
  proof (cases "ch = CHR 0x22")
    case True
    with 2(3) show ?thesis by simp
  next
    case q: False
    show ?thesis
    proof (cases "ch = CHR 0x5C")
      case True
      with q 2(3) obtain esc s' c where s: "s = esc # s'" and u: "unescape esc = Some c"
        and p: "parse_string_body s' (result @ [c]) = Some (r, rest)"
        by (auto split: list.splits option.splits)
      from 2(1) [OF q True s u p] s show ?thesis by simp
    next
      case False
      with q 2(3) have "parse_string_body s (result @ [ch]) = Some (r, rest)" by simp
      from 2(2) [OF q False this] show ?thesis by simp
    qed
  qed
qed

lemma tl_skip_ws_length: "skip_ws s \<noteq> [] \<Longrightarrow> length (tl (skip_ws s)) < length s"
  using skip_ws_length [of s] by (cases "skip_ws s") auto

lemma length_drop_fraction:
  "length (if xs \<noteq> [] \<and> hd xs = c then dropWhile P (tl xs) else xs) \<le> length xs"
proof (cases "xs \<noteq> [] \<and> hd xs = c")
  case True
  have "length (dropWhile P (tl xs)) \<le> length (tl xs)" by (rule length_dropWhile_le)
  with True show ?thesis by simp
next
  case False
  then show ?thesis by auto
qed

lemma length_drop_sign:
  "length (if xs \<noteq> [] \<and> (hd xs = c \<or> hd xs = d) then tl xs else xs) \<le> length xs"
  by simp

lemma scan_number_length: "length (scan_number s) \<le> length s"
proof -
  define s1 where "s1 = (if s \<noteq> [] \<and> hd s = CHR ''-'' then tl s else s)"
  define s2 where "s2 = dropWhile isdigit s1"
  define s3 where "s3 = (if s2 \<noteq> [] \<and> hd s2 = CHR ''.'' then dropWhile isdigit (tl s2) else s2)"
  define s5 where "s5 = (if tl s3 \<noteq> [] \<and> (hd (tl s3) = CHR ''+'' \<or> hd (tl s3) = CHR ''-'')
                         then tl (tl s3) else tl s3)"
  have 1: "length s1 \<le> length s" unfolding s1_def by simp
  have 2: "length s2 \<le> length s1" unfolding s2_def by (rule length_dropWhile_le)
  have 3: "length s3 \<le> length s2" unfolding s3_def by (rule length_drop_fraction)
  have "length s5 \<le> length (tl s3)" unfolding s5_def by (rule length_drop_sign)
  then have 4: "length s5 \<le> length s3" by simp
  have 5: "length (dropWhile isdigit s5) \<le> length s5" by (rule length_dropWhile_le)
  have "scan_number s = (if s3 \<noteq> [] \<and> (hd s3 = CHR ''e'' \<or> hd s3 = CHR ''E'')
                          then dropWhile isdigit s5 else s3)"
    unfolding s1_def s2_def s3_def s5_def by (simp add: scan_number_def Let_def)
  with 1 2 3 4 5 show ?thesis by (simp split: if_splits)
qed

lemma consume_literal_length: "consume_literal lit s = Some r \<Longrightarrow> length r \<le> length s"
  by (auto simp: consume_literal_def split: if_splits)

lemma parse_number_length: "parse_number ops s = Some (d, r) \<Longrightarrow> length r \<le> length s"
  using scan_number_length [of s]
  by (auto simp: parse_number_def Let_def split: option.splits)

text \<open>
  No parsing function leaves more text than it was given, so the two tests on the
  lengths in \<open>parse_members\<close> and \<open>parse_elements\<close> never fail.
\<close>

lemma parse_shorter:
  "parse_value ops inp = Some (v, r) \<Longrightarrow> length r \<le> length inp"
  "parse_members ops inp ms = Some (v, r) \<Longrightarrow> length r \<le> length inp"
  "parse_elements ops inp es = Some (v, r) \<Longrightarrow> length r \<le> length inp"
proof (induction ops inp and ops inp ms and ops inp es
       arbitrary: v r and v r and v r
       rule: parse_value_parse_members_parse_elements.induct)
  case (1 ops inp)
  let ?s = "skip_ws inp"
  have sl: "length ?s \<le> length inp" by (rule skip_ws_length)
  from "1.prems" have ne: "?s \<noteq> []"
    by (subst (asm) parse_value.simps) (auto simp: Let_def split: if_splits)
  then have tl: "length (tl ?s) < length inp" by (rule tl_skip_ws_length)
  have tl2: "length (skip_ws (tl ?s)) < length inp"
    using skip_ws_length [of "tl ?s"] tl by simp
  consider (str) "hd ?s = CHR 0x22"
    | (obj) "hd ?s \<noteq> CHR 0x22" "hd ?s = CHR ''{''"
    | (arr) "hd ?s \<noteq> CHR 0x22" "hd ?s \<noteq> CHR ''{''" "hd ?s = CHR ''[''"
    | (other) "hd ?s \<noteq> CHR 0x22" "hd ?s \<noteq> CHR ''{''" "hd ?s \<noteq> CHR ''[''"
    by blast
  then show ?case
  proof cases
    case str
    with "1.prems" ne obtain str where "parse_string_body (tl ?s) [] = Some (str, r)"
      by (subst (asm) parse_value.simps) (auto simp: Let_def split: option.splits)
    from parse_string_body_shorter [OF this] tl show ?thesis by simp
  next
    case obj
    let ?s1 = "skip_ws (tl ?s)"
    show ?thesis
    proof (cases "?s1 \<noteq> [] \<and> hd ?s1 = CHR ''}''")
      case True
      with "1.prems" ne obj have "r = tl ?s1"
        by (subst (asm) parse_value.simps) (simp add: Let_def)
      with tl2 show ?thesis by simp
    next
      case False
      with "1.prems" ne obj have "parse_members ops ?s1 [] = Some (v, r)"
        by (subst (asm) parse_value.simps) (simp add: Let_def)
      from "1.IH"(1) [OF refl ne _ obj(2) refl False this] obj(1) tl2 show ?thesis by simp
    qed
  next
    case arr
    let ?s1 = "skip_ws (tl ?s)"
    show ?thesis
    proof (cases "?s1 \<noteq> [] \<and> hd ?s1 = CHR '']''")
      case True
      with "1.prems" ne arr have "r = tl ?s1"
        by (subst (asm) parse_value.simps) (simp add: Let_def)
      with tl2 show ?thesis by simp
    next
      case False
      with "1.prems" ne arr have "parse_elements ops ?s1 [] = Some (v, r)"
        by (subst (asm) parse_value.simps) (simp add: Let_def)
      from "1.IH"(2) [OF refl ne _ arr(2) arr(3) refl False this] arr(1) tl2 show ?thesis by simp
    qed
  next
    case other
    with "1.prems" ne have
      "(\<exists>lit. consume_literal lit ?s = Some r) \<or> (\<exists>d. parse_number ops ?s = Some (d, r))"
      by (subst (asm) parse_value.simps)
         (auto simp: Let_def split: option.splits if_splits)
    with consume_literal_length parse_number_length sl show ?thesis
      by (metis order_trans)
  qed
next
  case (2 ops inp ms)
  let ?s = "skip_ws inp"
  from "2.prems" have ne: "?s \<noteq> []" and q: "hd ?s = CHR 0x22"
    by (subst (asm) parse_members.simps, auto simp: Let_def split: if_splits)+
  from "2.prems" ne q obtain key s1 where k: "parse_string_body (tl ?s) [] = Some (key, s1)"
    by (subst (asm) parse_members.simps) (auto simp: Let_def split: option.splits)
  let ?s2 = "skip_ws s1"
  from "2.prems" ne q k have ne2: "?s2 \<noteq> []" and c: "hd ?s2 = CHR '':''"
    by (subst (asm) parse_members.simps, auto simp: Let_def split: if_splits)+
  from "2.prems" ne q k ne2 c obtain w s3 where pv: "parse_value ops (tl ?s2) = Some (w, s3)"
    by (subst (asm) parse_members.simps) (auto simp: Let_def split: option.splits)
  from "2.prems" ne q k ne2 c pv have g: "\<not> length (tl ?s2) < length s3"
    by (subst (asm) parse_members.simps) (auto simp: Let_def split: if_splits)
  let ?s4 = "skip_ws s3"
  have l1: "length s1 < length inp"
    using parse_string_body_shorter [OF k] tl_skip_ws_length [OF ne] by simp
  have l2: "length (tl ?s2) < length s1" using ne2 by (rule tl_skip_ws_length)
  have l3: "length ?s4 \<le> length s3" by (rule skip_ws_length)
  show ?case
  proof (cases "?s4 \<noteq> [] \<and> hd ?s4 = CHR ''}''")
    case True
    with "2.prems" ne q k ne2 c pv g have "r = tl ?s4"
      by (subst (asm) parse_members.simps) (simp add: Let_def)
    with l1 l2 l3 g show ?thesis by simp
  next
    case False
    with "2.prems" ne q k ne2 c pv g have ne4: "\<not> (?s4 = [] \<or> hd ?s4 \<noteq> CHR '','')"
      and rec: "parse_members ops (tl ?s4) (map_emplace ms key w) = Some (v, r)"
      by (subst (asm) parse_members.simps, auto simp: Let_def split: if_splits)+
    have "length r \<le> length (tl ?s4)"
      using ne q ne2 c g False ne4 rec
      by (intro "2.IH"(2) [OF refl _ k refl refl _ pv refl _ refl refl False]) auto
    with l1 l2 l3 g show ?thesis by simp
  qed
next
  case (3 ops inp es)
  from "3.prems" obtain w s1 where pv: "parse_value ops inp = Some (w, s1)"
    by (subst (asm) parse_elements.simps) (auto split: option.splits)
  from "3.prems" pv have g: "\<not> length inp < length s1"
    by (subst (asm) parse_elements.simps) (auto split: if_splits)
  let ?s2 = "skip_ws s1"
  have l: "length ?s2 \<le> length s1" by (rule skip_ws_length)
  show ?case
  proof (cases "?s2 \<noteq> [] \<and> hd ?s2 = CHR '']''")
    case True
    with "3.prems" pv g have "r = tl ?s2"
      by (subst (asm) parse_elements.simps) (simp add: Let_def)
    with l g show ?thesis by simp
  next
    case False
    with "3.prems" pv g have ne: "\<not> (?s2 = [] \<or> hd ?s2 \<noteq> CHR '','')"
      and rec: "parse_elements ops (tl ?s2) (es @ [w]) = Some (v, r)"
      by (subst (asm) parse_elements.simps, auto simp: Let_def split: if_splits)+
    have "length r \<le> length (tl ?s2)"
      using g False ne rec
      by (intro "3.IH"(2) [OF pv refl _ refl refl False]) auto
    with l g show ?thesis by simp
  qed
qed

lemma parse_value_shorter: "parse_value ops inp = Some (v, r) \<Longrightarrow> length r \<le> length inp"
  by (rule parse_shorter)

section \<open>The application's handlers\<close>

lemma app_server_registry:
  "get_handlers (app_server ops reg) ''/registry'' = Some (registry_handler ops reg)"
  by (simp add: app_server_def Get_def Post_def set_mount_point_def new_server_def Let_def)

lemma app_server_resolve:
  "post_handlers (app_server ops reg) ''/resolve'' = Some (resolve_handler ops)"
  by (simp add: app_server_def Get_def Post_def set_mount_point_def new_server_def Let_def)

lemma load_registry_ok:
  "ok (load_registry ops fs p)
     = (\<exists>contents j. fs p = Some contents \<and> json_parse ops contents = Some j
                       \<and> root (load_registry ops fs p) = j)"
  by (auto simp: load_registry_def split: option.splits)

text \<open>
  Claim C8.  On the application's server a \<open>GET\<close> request whose path without its query
  is \<open>/registry\<close> is handled, with a JSON content type; the status is 503 exactly when
  the registry is not \<open>ok\<close>, and then the body is the error object; otherwise the status
  is 200 and the body is the dump of the registry's root.  The registry that
  \<open>load_registry\<close> returns is \<open>ok\<close> exactly when the file opens and parses, and its root
  is then the parsed document.
\<close>

theorem registry_route:
  assumes "req_method req = ''GET''" and "strip_query (req_path req) = ''/registry''"
  shows \<open>\<exists>r. dispatch (app_server ops reg) fs req new_response
                 = Some \<lparr>handled = True, response = r, opened = [], left_by = RouteHandled\<rparr>
             \<and> (res_status r = 503) = (\<not> ok reg)
             \<and> (\<not> ok reg \<longrightarrow> res_body r = ''{"error":"no_registry"}'')
             \<and> (ok reg \<longrightarrow> res_status r = 200 \<and> res_body r = dump ops (root reg))
             \<and> map_of (res_headers r) ''Content-Type'' = Some ''application/json''
             \<and> ok (load_registry ops fs' p)
                 = (\<exists>contents j. fs' p = Some contents \<and> json_parse ops contents = Some j
                                   \<and> root (load_registry ops fs' p) = j)\<close>
proof -
  have "dispatch (app_server ops reg) fs req new_response
          = Some \<lparr>handled = True,
                  response = ensure_default_headers (the (registry_handler ops reg req new_response)),
                  opened = [], left_by = RouteHandled\<rparr>"
    using assms
    by (simp add: dispatch_def app_server_registry Let_def registry_handler_def)
  moreover have "map_of (res_headers (ensure_default_headers (the (registry_handler ops reg req new_response))))
                   ''Content-Type'' = Some ''application/json''"
    by (simp add: ensure_default_headers_content_type registry_handler_def set_content_def
          map_of_map_put_same)
  moreover have "res_status (ensure_default_headers (the (registry_handler ops reg req new_response)))
                   = (if ok reg then 200 else 503)"
    by (simp add: ensure_default_headers_def registry_handler_def set_content_def
          new_response_def)
  moreover have \<open>res_body (ensure_default_headers (the (registry_handler ops reg req new_response)))
                   = (if ok reg then dump ops (root reg) else ''{"error":"no_registry"}'')\<close>
    by (simp add: ensure_default_headers_def registry_handler_def set_content_def)
  ultimately show ?thesis
    using load_registry_ok [of ops fs' p] by auto
qed

lemma sample_registry_loaded:
  "load_registry int_number_ops sample_files ''./registry/universal.json''
     = \<lparr>root = JObject [(''a'', JString ''x''), (''b'', JArray [JNumber 1, JBoolean True])],
        ok = True\<rparr>"
  by (simp add: load_registry_def sample_files_def sample_registry_def json_parse_def
        parse_value.simps parse_members.simps
        parse_elements.simps skip_ws_def isspace_def parse_number_def scan_number_def
        isdigit_def int_number_ops_def int_stod_def digits_value_def digit_val_def
        consume_literal_def starts_with_def unescape_def Let_def)

lemma sample_registry_dump:
  \<open>dump int_number_ops (JObject [(''a'', JString ''x''), (''b'', JArray [JNumber 1, JBoolean True])])
     = ''{"a":"x", "b":[1, true]}''\<close>
  by (simp add: dump_def dump_string_def escape_char_def newline_indent_def
        int_number_ops_def dec_int_def dec_nat.simps)

text \<open>
  The registry of a file that parses is served with status 200; without the file the
  answer is 503.
\<close>

theorem registry_route_witness:
  \<open>(\<exists>r. dispatch (app_server int_number_ops
                    (load_registry int_number_ops sample_files ''./registry/universal.json''))
            sample_files
            \<lparr>req_method = ''GET'', req_path = ''/registry?pretty=0'', req_body = [],
             req_headers = []\<rparr>
            new_response
          = Some \<lparr>handled = True, response = r, opened = [], left_by = RouteHandled\<rparr>
      \<and> res_status r = 200
      \<and> res_body r = ''{"a":"x", "b":[1, true]}''
      \<and> map_of (res_headers r) ''Content-Type'' = Some ''application/json'')
   \<and> (\<exists>r. dispatch (app_server int_number_ops
                    (load_registry int_number_ops (\<lambda>p. None) ''./registry/universal.json''))
            (\<lambda>p. None)
            \<lparr>req_method = ''GET'', req_path = ''/registry'', req_body = [], req_headers = []\<rparr>
            new_response
          = Some \<lparr>handled = True, response = r, opened = [], left_by = RouteHandled\<rparr>
      \<and> res_status r = 503
      \<and> res_body r = ''{"error":"no_registry"}''
      \<and> map_of (res_headers r) ''Content-Type'' = Some ''application/json'')\<close>
proof -
  let ?reg = "load_registry int_number_ops sample_files ''./registry/universal.json''"
  let ?req = "\<lparr>req_method = ''GET'', req_path = ''/registry?pretty=0'', req_body = [],
               req_headers = []\<rparr>"
  have a: "req_method ?req = ''GET''" by simp
  have b: "strip_query (req_path ?req) = ''/registry''"
    by (simp add: strip_query_def str_find_def starts_with_def substr_def)
  have c: "ok ?reg" by (simp add: sample_registry_loaded)
  have d: \<open>dump int_number_ops (root ?reg) = ''{"a":"x", "b":[1, true]}''\<close>
    by (simp add: sample_registry_loaded sample_registry_dump)
  let ?none = "load_registry int_number_ops (\<lambda>p. None) ''./registry/universal.json''"
  let ?req' = "\<lparr>req_method = ''GET'', req_path = ''/registry'', req_body = [], req_headers = []\<rparr>"
  have a': "req_method ?req' = ''GET''" by simp
  have b': "strip_query (req_path ?req') = ''/registry''"
    by (simp add: strip_query_plain)
  have c': "\<not> ok ?none" by (simp add: load_registry_def)
  from registry_route [OF a b, where ops = int_number_ops and reg = ?reg and fs = sample_files
         and fs' = sample_files and p = "[]"] c d
  have first: \<open>\<exists>r. dispatch (app_server int_number_ops ?reg) sample_files ?req new_response
          = Some \<lparr>handled = True, response = r, opened = [], left_by = RouteHandled\<rparr>
      \<and> res_status r = 200
      \<and> res_body r = ''{"a":"x", "b":[1, true]}''
      \<and> map_of (res_headers r) ''Content-Type'' = Some ''application/json''\<close>
    by auto
  from registry_route [OF a' b', where ops = int_number_ops and reg = ?none
         and fs = "\<lambda>p. None" and fs' = "\<lambda>p. None" and p = "[]"] c'
  have second: \<open>\<exists>r. dispatch (app_server int_number_ops ?none) (\<lambda>p. None) ?req' new_response
          = Some \<lparr>handled = True, response = r, opened = [], left_by = RouteHandled\<rparr>
      \<and> res_status r = 503
      \<and> res_body r = ''{"error":"no_registry"}''
      \<and> map_of (res_headers r) ''Content-Type'' = Some ''application/json''\<close>
    by auto
  from first second show ?thesis by (rule conjI)
qed

lemma json_object_worker:
  "json_object [(''worker_id'', w), (''system'', s)] = JObject [(''system'', s), (''worker_id'', w)]"
  by (simp add: json_object_def)

lemma get_Node_throws:
  "(get_Node ops j = None)
     = (\<exists>obj s. j = JObject obj \<and> map_of obj ''seed'' = Some (JString s) \<and> stoi s = None)"
  by (cases j)
     (auto simp: get_Node_def is_object_def value_int_def get_int_def
           split: option.splits json.splits)

lemma get_Node_object:
  "get_Node ops (JObject obj) = Some node \<Longrightarrow>
     title node = (case map_of obj ''title'' of None \<Rightarrow> [] | Some v \<Rightarrow> get_string ops v)
   \<and> arcana node = (case map_of obj ''arcana'' of None \<Rightarrow> ''0'' | Some v \<Rightarrow> get_string ops v)
   \<and> (map_of obj ''seed'' = None \<longrightarrow> seed node = 33)
   \<and> (\<forall>v. map_of obj ''seed'' = Some v \<longrightarrow> get_int ops v = Some (seed node))"
  by (auto simp: get_Node_def is_object_def value_int_def value_string_def
           split: option.splits)

lemma get_Node_not_object:
  "\<not> is_object j \<Longrightarrow>
     get_Node ops j = Some \<lparr>title = [], arcana = [], seed = 33, timestamp = []\<rparr>"
  by (simp add: get_Node_def)

lemma resolve_defaults:
  "resolve \<lparr>title = [], arcana = [], seed = 33, timestamp = []\<rparr> = 34"
  "resolve \<lparr>title = [], arcana = ''0'', seed = 33, timestamp = []\<rparr> = 34"
  by (simp_all add: resolve_def pythag_sum_def sum_digits_def day_mod_36_def c_rem_def
        isdigit_def digit_val_def)

text \<open>
  Claim C9, as amended.  The handler of \<open>POST /resolve\<close> always returns.  Its status is
  400 exactly when \<open>json::parse\<close> throws on the body or \<open>get<Node>\<close> throws on the parsed
  value, which it does exactly for an object whose \<open>seed\<close> is a string that \<open>std::stoi\<close>
  rejects; the body is then the error object.  Otherwise the status is 200 and the
  body is the dump of the object with the worker id of the node.  The node of the
  empty object has the defaults: empty title, arcana \<open>0\<close>, seed 33; a value that is not
  an object gives the default-constructed node, which resolves to the same worker id.
\<close>

theorem resolve_handler_response:
  \<open>\<exists>r. resolve_handler ops req new_response = Some r
      \<and> (res_status r = 400)
          = (json_parse ops (req_body req) = None
             \<or> (\<exists>obj s. json_parse ops (req_body req) = Some (JObject obj)
                         \<and> map_of obj ''seed'' = Some (JString s) \<and> stoi s = None))
      \<and> (res_status r = 400 \<longrightarrow> res_body r = ''{"error":"bad_json"}'')
      \<and> (\<forall>j node. json_parse ops (req_body req) = Some j \<and> get_Node ops j = Some node
            \<longrightarrow> res_status r = 200
                \<and> res_body r
                    = dump ops (JObject [(''system'', JString ''raku-lite-cpp''),
                                         (''worker_id'', JNumber (double_of_int ops (resolve node)))]))
      \<and> get_Node ops (JObject []) = Some \<lparr>title = [], arcana = ''0'', seed = 33, timestamp = []\<rparr>
      \<and> (\<forall>j. \<not> is_object j
            \<longrightarrow> get_Node ops j = Some \<lparr>title = [], arcana = [], seed = 33, timestamp = []\<rparr>)
      \<and> resolve \<lparr>title = [], arcana = [], seed = 33, timestamp = []\<rparr>
          = resolve \<lparr>title = [], arcana = ''0'', seed = 33, timestamp = []\<rparr>\<close>
proof (cases "json_parse ops (req_body req)")
  case None
  then show ?thesis
    by (simp add: resolve_handler_def set_content_def new_response_def get_Node_not_object
          resolve_defaults)
       (simp add: get_Node_def is_object_def value_int_def value_string_def)
next
  case (Some j)
  show ?thesis
  proof (cases "get_Node ops j")
    case None
    with get_Node_throws [of ops j] Some show ?thesis
      by (simp add: resolve_handler_def set_content_def new_response_def get_Node_not_object
            resolve_defaults)
         (simp add: get_Node_def is_object_def value_int_def value_string_def)
  next
    case (Some node)
    with get_Node_throws [of ops j] \<open>json_parse ops (req_body req) = Some j\<close> show ?thesis
      by (simp add: resolve_handler_def set_content_def new_response_def get_Node_not_object
            resolve_defaults json_object_worker)
         (auto simp add: get_Node_def is_object_def value_int_def value_string_def)
  qed
qed

lemma sample_body_parsed:
  "json_parse int_number_ops sample_body
     = Some (JObject [(''arcana'', JString ''1''), (''seed'', JNumber 33),
                      (''title'', JString ''AB'')])"
  by (simp add: sample_body_def json_parse_def
        parse_value.simps parse_members.simps
        parse_elements.simps skip_ws_def isspace_def parse_number_def scan_number_def
        isdigit_def int_number_ops_def int_stod_def digits_value_def digit_val_def
        consume_literal_def starts_with_def unescape_def Let_def)

lemma sample_body_node:
  "get_Node int_number_ops
     (JObject [(''arcana'', JString ''1''), (''seed'', JNumber 33), (''title'', JString ''AB'')])
     = Some \<lparr>title = ''AB'', arcana = ''1'', seed = 33, timestamp = []\<rparr>"
  by (simp add: get_Node_def is_object_def value_int_def value_string_def get_int_def
        get_string_def int_number_ops_def)

lemma sample_body_resolve:
  "resolve \<lparr>title = ''AB'', arcana = ''1'', seed = 33, timestamp = []\<rparr> = 45"
  by (simp add: resolve_def pythag_sum_def sum_digits_def day_mod_36_def c_rem_def
        isdigit_def digit_val_def toupper_def)

text \<open>
  The body of the specification resolves to the worker id 45; a body that breaks off
  after its first brace is answered with 400.
\<close>

theorem resolve_handler_response_witness:
  \<open>(\<exists>r. resolve_handler int_number_ops
            \<lparr>req_method = ''POST'', req_path = ''/resolve'', req_body = sample_body,
             req_headers = []\<rparr>
            new_response = Some r
      \<and> res_status r = 200
      \<and> res_body r = ''{"system":"raku-lite-cpp", "worker_id":45}'')
   \<and> (\<exists>r. resolve_handler int_number_ops
            \<lparr>req_method = ''POST'', req_path = ''/resolve'', req_body = ''{'',
             req_headers = []\<rparr>
            new_response = Some r
      \<and> res_status r = 400
      \<and> res_body r = ''{"error":"bad_json"}'')\<close>
proof -
  let ?req = "\<lparr>req_method = ''POST'', req_path = ''/resolve'', req_body = sample_body,
               req_headers = []\<rparr>"
  let ?bad = "\<lparr>req_method = ''POST'', req_path = ''/resolve'', req_body = ''{'',
               req_headers = []\<rparr>"
  have d: \<open>dump int_number_ops
             (JObject [(''system'', JString ''raku-lite-cpp''),
                       (''worker_id'', JNumber (double_of_int int_number_ops 45))])
           = ''{"system":"raku-lite-cpp", "worker_id":45}''\<close>
    by (simp add: dump_def dump_string_def escape_char_def newline_indent_def
          int_number_ops_def dec_int_def dec_nat.simps)
  from resolve_handler_response [of int_number_ops ?req]
  obtain r where r: "resolve_handler int_number_ops ?req new_response = Some r"
    and ok: "\<forall>j node. json_parse int_number_ops (req_body ?req) = Some j
                \<and> get_Node int_number_ops j = Some node
            \<longrightarrow> res_status r = 200
                \<and> res_body r
                    = dump int_number_ops (JObject [(''system'', JString ''raku-lite-cpp''),
                         (''worker_id'', JNumber (double_of_int int_number_ops (resolve node)))])"
    by blast
  from ok sample_body_parsed sample_body_node
  have "res_status r = 200
        \<and> res_body r
            = dump int_number_ops (JObject [(''system'', JString ''raku-lite-cpp''),
                 (''worker_id'', JNumber (double_of_int int_number_ops
                    (resolve \<lparr>title = ''AB'', arcana = ''1'', seed = 33, timestamp = []\<rparr>)))])"
    by simp
  with r d have first: \<open>\<exists>r. resolve_handler int_number_ops ?req new_response = Some r
      \<and> res_status r = 200
      \<and> res_body r = ''{"system":"raku-lite-cpp", "worker_id":45}''\<close>
    by (simp add: sample_body_resolve)
  have broken: "json_parse int_number_ops (req_body ?bad) = None"
    by (simp add: json_parse_def parse_value.simps parse_members.simps skip_ws_def
          isspace_def Let_def)
  from resolve_handler_response [of int_number_ops ?bad]
  obtain r' where r': "resolve_handler int_number_ops ?bad new_response = Some r'"
    and st: "(res_status r' = 400)
          = (json_parse int_number_ops (req_body ?bad) = None
             \<or> (\<exists>obj s. json_parse int_number_ops (req_body ?bad) = Some (JObject obj)
                         \<and> map_of obj ''seed'' = Some (JString s) \<and> stoi s = None))"
    and bd: \<open>res_status r' = 400 \<longrightarrow> res_body r' = ''{"error":"bad_json"}''\<close>
    by blast
  from st broken have "res_status r' = 400" by blast
  with r' bd have second: \<open>\<exists>r. resolve_handler int_number_ops ?bad new_response = Some r
      \<and> res_status r = 400
      \<and> res_body r = ''{"error":"bad_json"}''\<close>
    by blast
  from first second show ?thesis by (rule conjI)
qed

text \<open>
  Claim C9 as stated fails: the body \<open>{"seed":"x"}\<close> is valid JSON, the parser accepts
  it, and the handler still answers 400, since \<open>std::stoi\<close> throws on the seed.
\<close>

theorem resolve_handler_valid_json_rejected:
  \<open>json_parse int_number_ops seed_text_body = Some (JObject [(''seed'', JString ''x'')])
   \<and> resolve_handler int_number_ops
        \<lparr>req_method = ''POST'', req_path = ''/resolve'', req_body = seed_text_body,
         req_headers = []\<rparr>
        new_response
      = Some \<lparr>res_status = 400, res_body = ''{"error":"bad_json"}'',
              res_headers = [(''Content-Type'', ''application/json'')]\<rparr>\<close>
proof -
  have p: "json_parse int_number_ops seed_text_body = Some (JObject [(''seed'', JString ''x'')])"
    by (simp add: seed_text_body_def json_parse_def
        parse_value.simps parse_members.simps
        parse_elements.simps skip_ws_def isspace_def parse_number_def scan_number_def
        isdigit_def int_number_ops_def int_stod_def digits_value_def digit_val_def
        consume_literal_def starts_with_def unescape_def Let_def)
  have "stoi ''x'' = None"
    by (simp add: stoi_def isspace_def isdigit_def)
  then have "get_Node int_number_ops (JObject [(''seed'', JString ''x'')]) = None"
    by (simp add: get_Node_def is_object_def value_int_def get_int_def)
  with p show ?thesis
    by (simp add: resolve_handler_def set_content_def new_response_def)
qed

end
